theory Spec2Isabelle
  imports Main
begin

section \<open>JavaScript strings\<close>

text \<open>
  A JavaScript string is a sequence of code units. The model takes a string as a
  \<^typ>\<open>string\<close>, a list of 8-bit characters: it covers the strings whose code units
  are below 256, and a character stands for the code unit of the same number.
\<close>

definition char_code :: "char \<Rightarrow> nat" where
  "char_code c = of_char c"

text \<open>
  The white space and line terminators of ECMAScript that \<open>trim\<close> and \<open>parseInt\<close>
  strip, among the code units below 256: TAB, LF, VT, FF, CR, SP and NBSP.
\<close>

definition isWhiteSpace :: "char \<Rightarrow> bool" where
  "isWhiteSpace c = (char_code c \<in> {9, 10, 11, 12, 13, 32, 160})"

definition trimStart :: "string \<Rightarrow> string" where
  "trimStart s = dropWhile isWhiteSpace s"

definition trimEnd :: "string \<Rightarrow> string" where
  "trimEnd s = rev (dropWhile isWhiteSpace (rev s))"

definition trim :: "string \<Rightarrow> string" where
  "trim s = trimEnd (trimStart s)"

text \<open>
  \<open>toLowerCase\<close> on code units below 256: the letters A to Z, and the Latin-1 capital
  letters U+00C0 to U+00DE without the multiplication sign U+00D7, move up by 32.
\<close>

definition lower_char :: "char \<Rightarrow> char" where
  "lower_char c =
     (let n = char_code c in
      if (65 \<le> n \<and> n \<le> 90) \<or> (192 \<le> n \<and> n \<le> 222 \<and> n \<noteq> 215)
      then char_of (n + 32) else c)"

definition toLowerCase :: "string \<Rightarrow> string" where
  "toLowerCase s = map lower_char s"

definition startsWith :: "string \<Rightarrow> string \<Rightarrow> bool" where
  "startsWith s p = (take (length p) s = p)"

definition endsWith :: "string \<Rightarrow> string \<Rightarrow> bool" where
  "endsWith s p = (length p \<le> length s \<and> drop (length s - length p) s = p)"

text \<open>\<open>s.substring(a)\<close> and \<open>s.substring(a, b)\<close> for \<open>a \<le> b\<close>; both clamp to the length.\<close>

definition substring_from :: "string \<Rightarrow> nat \<Rightarrow> string" where
  "substring_from s a = drop a s"

definition substring :: "string \<Rightarrow> nat \<Rightarrow> nat \<Rightarrow> string" where
  "substring s a b = take (b - a) (drop a s)"

definition padStart :: "string \<Rightarrow> nat \<Rightarrow> char \<Rightarrow> string" where
  "padStart s n c = replicate (n - length s) c @ s"

text \<open>\<open>s.split(c)\<close> for a one-character separator: always at least one part.\<close>

fun split_char :: "char \<Rightarrow> string \<Rightarrow> string list" where
  "split_char c [] = [[]]"
| "split_char c (x # xs) =
     (if x = c then [] # split_char c xs
      else (case split_char c xs of
              [] \<Rightarrow> [[x]]
            | p # ps \<Rightarrow> (x # p) # ps))"

text \<open>
  \<open>content.split(/\r?\n/)\<close>: a line ends at LF, or at CR directly followed by LF; a
  CR not followed by LF stays in its line.
\<close>

definition CR :: char where "CR = CHR 0x0D"
definition LF :: char where "LF = CHR 0x0A"

fun split_lines :: "string \<Rightarrow> string list" where
  "split_lines [] = [[]]"
| "split_lines [x] = (if x = LF then [[], []] else [[x]])"
| "split_lines (x # y # xs) =
     (if x = CR \<and> y = LF then [] # split_lines xs
      else if x = LF then [] # split_lines (y # xs)
      else (case split_lines (y # xs) of
              [] \<Rightarrow> [[x]]
            | p # ps \<Rightarrow> (x # p) # ps))"

section \<open>Numbers\<close>

text \<open>
  The numbers of this program are integers or NaN: a number is an \<^typ>\<open>int option\<close>,
  with \<open>None\<close> for NaN.
\<close>

type_synonym number = "int option"

definition digit_value :: "char \<Rightarrow> nat option" where
  "digit_value c =
     (let n = char_code c in
      if 48 \<le> n \<and> n \<le> 57 then Some (n - 48)
      else if 97 \<le> n \<and> n \<le> 122 then Some (n - 87)
      else if 65 \<le> n \<and> n \<le> 90 then Some (n - 55)
      else None)"

definition is_digit :: "nat \<Rightarrow> char \<Rightarrow> bool" where
  "is_digit R c = (case digit_value c of None \<Rightarrow> False | Some v \<Rightarrow> v < R)"

definition digits_value :: "nat \<Rightarrow> string \<Rightarrow> nat" where
  "digits_value R z = foldl (\<lambda>acc c. acc * R + the (digit_value c)) 0 z"

text \<open>
  \<open>parseInt(s)\<close> with no radix: leading white space is skipped, a sign is read, a
  prefix \<open>0x\<close> or \<open>0X\<close> selects radix 16, and the longest run of digits is the value;
  with no digit the result is NaN.
\<close>

definition parseInt :: "string \<Rightarrow> number" where
  "parseInt s =
     (let s1 = trimStart s;
          neg = startsWith s1 ''-'';
          s2 = (if startsWith s1 ''-'' \<or> startsWith s1 ''+'' then drop 1 s1 else s1);
          hex = (startsWith s2 ''0x'' \<or> startsWith s2 ''0X'');
          R = (if hex then 16 else 10);
          s3 = (if hex then drop 2 s2 else s2);
          z = takeWhile (is_digit R) s3
      in if z = [] then None
         else Some ((if neg then -1 else 1) * int (digits_value R z)))"

fun digits :: "nat \<Rightarrow> string" where
  "digits n = (if n < 10 then [char_of (48 + n)] else digits (n div 10) @ [char_of (48 + n mod 10)])"

declare digits.simps [simp del]

text \<open>\<open>String(x)\<close> and \<open>`${x}`\<close> of a number.\<close>

definition String_number :: "number \<Rightarrow> string" where
  "String_number x =
     (case x of None \<Rightarrow> ''NaN''
      | Some i \<Rightarrow> (if i < 0 then ''-'' @ digits (nat (- i)) else digits (nat i)))"

section \<open>Dates\<close>

text \<open>
  A \<open>Date\<close> object holds a time value: milliseconds since the epoch, or NaN (an
  invalid date). The functions below are the abstract operations of ECMAScript on time
  values.
\<close>

datatype date = InvalidDate | Date int

definition msPerDay :: int where "msPerDay = 86400000"
definition msPerHour :: int where "msPerHour = 3600000"
definition msPerMinute :: int where "msPerMinute = 60000"
definition msPerSecond :: int where "msPerSecond = 1000"

definition Day :: "int \<Rightarrow> int" where
  "Day t = t div msPerDay"

definition TimeWithinDay :: "int \<Rightarrow> int" where
  "TimeWithinDay t = t mod msPerDay"

definition DaysInYear :: "int \<Rightarrow> int" where
  "DaysInYear y =
     (if y mod 4 \<noteq> 0 then 365
      else if y mod 100 \<noteq> 0 then 366
      else if y mod 400 \<noteq> 0 then 365
      else 366)"

definition DayFromYear :: "int \<Rightarrow> int" where
  "DayFromYear y =
     365 * (y - 1970) + (y - 1969) div 4 - (y - 1901) div 100 + (y - 1601) div 400"

text \<open>
  The year of a day number: ECMAScript asks for the largest \<open>y\<close> with
  \<open>DayFromYear y \<le> d\<close>. It is computed here from the number of days since 1 January
  1601 by the cycles of 400, 100, 4 and 1 years; \<open>YearFromDay_bounds\<close> below proves that
  this is the year ECMAScript asks for.
\<close>

definition YearFromDay :: "int \<Rightarrow> int" where
  "YearFromDay d =
     (let n = d + 134774;
          q = n div 146097;
          r = n mod 146097;
          c = min (r div 36524) 3;
          r2 = r - c * 36524;
          q4 = r2 div 1461;
          r3 = r2 mod 1461;
          a = min (r3 div 365) 3
      in 1601 + 400 * q + 100 * c + 4 * q4 + a)"

definition YearFromTime :: "int \<Rightarrow> int" where
  "YearFromTime t = YearFromDay (Day t)"

definition InLeapYear :: "int \<Rightarrow> int" where
  "InLeapYear t = (if DaysInYear (YearFromTime t) = 366 then 1 else 0)"

definition DayWithinYear :: "int \<Rightarrow> int" where
  "DayWithinYear t = Day t - DayFromYear (YearFromTime t)"

definition MonthFromTime :: "int \<Rightarrow> int" where
  "MonthFromTime t =
     (let d = DayWithinYear t; l = InLeapYear t in
      if d < 31 then 0
      else if d < 59 + l then 1
      else if d < 90 + l then 2
      else if d < 120 + l then 3
      else if d < 151 + l then 4
      else if d < 181 + l then 5
      else if d < 212 + l then 6
      else if d < 243 + l then 7
      else if d < 273 + l then 8
      else if d < 304 + l then 9
      else if d < 334 + l then 10
      else 11)"

text \<open>The day number within the year on which month \<open>m\<close> (0 to 11) begins.\<close>

definition month_start :: "int \<Rightarrow> int \<Rightarrow> int" where
  "month_start l m =
     (if m = 0 then 0
      else if m = 1 then 31
      else if m = 2 then 59 + l
      else if m = 3 then 90 + l
      else if m = 4 then 120 + l
      else if m = 5 then 151 + l
      else if m = 6 then 181 + l
      else if m = 7 then 212 + l
      else if m = 8 then 243 + l
      else if m = 9 then 273 + l
      else if m = 10 then 304 + l
      else 334 + l)"

definition DateFromTime :: "int \<Rightarrow> int" where
  "DateFromTime t = DayWithinYear t - month_start (InLeapYear t) (MonthFromTime t) + 1"

definition HourFromTime :: "int \<Rightarrow> int" where
  "HourFromTime t = (t div msPerHour) mod 24"

definition MinFromTime :: "int \<Rightarrow> int" where
  "MinFromTime t = (t div msPerMinute) mod 60"

definition SecFromTime :: "int \<Rightarrow> int" where
  "SecFromTime t = (t div msPerSecond) mod 60"

definition MakeTime :: "int \<Rightarrow> int \<Rightarrow> int \<Rightarrow> int \<Rightarrow> int" where
  "MakeTime h m s milli = h * msPerHour + m * msPerMinute + s * msPerSecond + milli"

definition MakeDay :: "int \<Rightarrow> int \<Rightarrow> int \<Rightarrow> int" where
  "MakeDay y m dt =
     (let ym = y + m div 12; mn = m mod 12 in
      DayFromYear ym + month_start (if DaysInYear ym = 366 then 1 else 0) mn + dt - 1)"

definition MakeDate :: "int \<Rightarrow> int \<Rightarrow> int" where
  "MakeDate day time = day * msPerDay + time"

definition TimeClip :: "int \<Rightarrow> date" where
  "TimeClip t = (if \<bar>t\<bar> > 8640000000000000 then InvalidDate else Date t)"

definition MakeFullYear :: "int \<Rightarrow> int" where
  "MakeFullYear y = (if 0 \<le> y \<and> y \<le> 99 then 1900 + y else y)"

text \<open>
  Local time. The time zone of the engine is a parameter of everything that reads or
  builds local time: a zone \<open>tz\<close> is the function \<open>LocalTZA\<close> of ECMAScript, which
  gives the offset of local time from UTC in milliseconds (positive east of Greenwich)
  at a time value. With the flag \<open>True\<close> the time value is a UTC instant, with \<open>False\<close>
  it is a local time; the offset may change with the time value, as it does across a
  daylight-saving transition.
\<close>

type_synonym zone = "int \<Rightarrow> bool \<Rightarrow> int"

definition LocalTime :: "zone \<Rightarrow> int \<Rightarrow> int" where
  "LocalTime tz t = t + tz t True"

definition UTC :: "zone \<Rightarrow> int \<Rightarrow> int" where
  "UTC tz t = t - tz t False"

text \<open>A zone whose offset never changes.\<close>

definition fixed_zone :: "int \<Rightarrow> zone" where
  "fixed_zone off = (\<lambda>t isUTC. off)"

text \<open>\<open>Date.UTC(y, m, d, h, min, s)\<close> wrapped in \<open>new Date(...)\<close>.\<close>

definition Date_UTC :: "number \<Rightarrow> number \<Rightarrow> number \<Rightarrow> number \<Rightarrow> number \<Rightarrow> number \<Rightarrow> date" where
  "Date_UTC y m dt h mi s =
     (case (y, m, dt, h, mi, s) of
        (Some y', Some m', Some dt', Some h', Some mi', Some s') \<Rightarrow>
          TimeClip (MakeDate (MakeDay (MakeFullYear y') m' dt') (MakeTime h' mi' s' 0))
      | _ \<Rightarrow> InvalidDate)"

text \<open>\<open>new Date(y, m, d, h, min, s)\<close>: the fields are local time.\<close>

definition Date_local :: "zone \<Rightarrow> number \<Rightarrow> number \<Rightarrow> number \<Rightarrow> number \<Rightarrow> number \<Rightarrow> number \<Rightarrow> date" where
  "Date_local tz y m dt h mi s =
     (case (y, m, dt, h, mi, s) of
        (Some y', Some m', Some dt', Some h', Some mi', Some s') \<Rightarrow>
          TimeClip (UTC tz (MakeDate (MakeDay (MakeFullYear y') m' dt') (MakeTime h' mi' s' 0)))
      | _ \<Rightarrow> InvalidDate)"

definition num_add :: "number \<Rightarrow> int \<Rightarrow> number" where
  "num_add x k = map_option (\<lambda>i. i + k) x"

definition getFullYear :: "zone \<Rightarrow> date \<Rightarrow> number" where
  "getFullYear tz d = (case d of InvalidDate \<Rightarrow> None | Date t \<Rightarrow> Some (YearFromTime (LocalTime tz t)))"

definition getMonth :: "zone \<Rightarrow> date \<Rightarrow> number" where
  "getMonth tz d = (case d of InvalidDate \<Rightarrow> None | Date t \<Rightarrow> Some (MonthFromTime (LocalTime tz t)))"

definition getDate :: "zone \<Rightarrow> date \<Rightarrow> number" where
  "getDate tz d = (case d of InvalidDate \<Rightarrow> None | Date t \<Rightarrow> Some (DateFromTime (LocalTime tz t)))"

definition getUTCFullYear :: "date \<Rightarrow> number" where
  "getUTCFullYear d = (case d of InvalidDate \<Rightarrow> None | Date t \<Rightarrow> Some (YearFromTime t))"

definition getUTCMonth :: "date \<Rightarrow> number" where
  "getUTCMonth d = (case d of InvalidDate \<Rightarrow> None | Date t \<Rightarrow> Some (MonthFromTime t))"

definition getUTCDate :: "date \<Rightarrow> number" where
  "getUTCDate d = (case d of InvalidDate \<Rightarrow> None | Date t \<Rightarrow> Some (DateFromTime t))"

definition getUTCHours :: "date \<Rightarrow> number" where
  "getUTCHours d = (case d of InvalidDate \<Rightarrow> None | Date t \<Rightarrow> Some (HourFromTime t))"

definition getUTCMinutes :: "date \<Rightarrow> number" where
  "getUTCMinutes d = (case d of InvalidDate \<Rightarrow> None | Date t \<Rightarrow> Some (MinFromTime t))"

definition getUTCSeconds :: "date \<Rightarrow> number" where
  "getUTCSeconds d = (case d of InvalidDate \<Rightarrow> None | Date t \<Rightarrow> Some (SecFromTime t))"

text \<open>\<open>d.setDate(dt)\<close> and \<open>d.setHours(h, m, s, ms)\<close>, returning the updated date.\<close>

definition setDate :: "zone \<Rightarrow> date \<Rightarrow> number \<Rightarrow> date" where
  "setDate tz d dt =
     (case d of InvalidDate \<Rightarrow> InvalidDate
      | Date t0 \<Rightarrow>
          (case dt of None \<Rightarrow> InvalidDate
           | Some dt' \<Rightarrow>
               (let t = LocalTime tz t0;
                    newDate = MakeDate (MakeDay (YearFromTime t) (MonthFromTime t) dt') (TimeWithinDay t)
                in TimeClip (UTC tz newDate))))"

definition setHours :: "zone \<Rightarrow> date \<Rightarrow> int \<Rightarrow> int \<Rightarrow> int \<Rightarrow> int \<Rightarrow> date" where
  "setHours tz d h m s milli =
     (case d of InvalidDate \<Rightarrow> InvalidDate
      | Date t0 \<Rightarrow>
          (let t = LocalTime tz t0;
               date = MakeDate (Day t) (MakeTime h m s milli)
           in TimeClip (UTC tz date)))"

text \<open>\<open>a < b\<close> on dates compares the time values; a comparison with NaN is false.\<close>

definition date_less :: "date \<Rightarrow> date \<Rightarrow> bool" where
  "date_less a b = (case (a, b) of (Date x, Date y) \<Rightarrow> x < y | _ \<Rightarrow> False)"

section \<open>Events\<close>

text \<open>
  An event is a JavaScript object whose fields are attached as they are read; a field
  that was never assigned is \<open>None\<close> (\<open>undefined\<close>).
\<close>

datatype error = TypeError

record event =
  title :: "string option"
  start :: "date option"
  end' :: "date option"
  isAllDay :: "bool option"
  description :: "string option"
  location :: "string option"
  rowIndex :: "nat option"

definition empty_event :: event where
  "empty_event = \<lparr>title = None, start = None, end' = None, isAllDay = None,
     description = None, location = None, rowIndex = None\<rparr>"

text \<open>Truthiness: a string is truthy when it is not empty, an object (a date) always.\<close>

definition truthy_string :: "string option \<Rightarrow> bool" where
  "truthy_string v = (case v of None \<Rightarrow> False | Some s \<Rightarrow> s \<noteq> [])"

definition truthy_object :: "'a option \<Rightarrow> bool" where
  "truthy_object v = (v \<noteq> None)"

section \<open>The date decoders\<close>

definition parseIcsDate :: "zone \<Rightarrow> string \<Rightarrow> date" where
  "parseIcsDate tz dateStr =
     (let year = parseInt (substring dateStr 0 4);
          month = num_add (parseInt (substring dateStr 4 6)) (- 1);
          day = parseInt (substring dateStr 6 8)
      in Date_local tz year month day (Some 0) (Some 0) (Some 0))"

text \<open>
  \<open>const [datePart, timePart] = dateTimeStr.split('T')\<close>: with a single part,
  \<open>timePart\<close> is \<open>undefined\<close> and \<open>timePart.substring\<close> throws a TypeError.
\<close>

definition parseIcsDateTime :: "zone \<Rightarrow> string \<Rightarrow> error + date" where
  "parseIcsDateTime tz dateTimeStr =
     (case split_char CHR ''T'' dateTimeStr of
        datePart # timePart # _ \<Rightarrow>
          (let year = parseInt (substring datePart 0 4);
               month = num_add (parseInt (substring datePart 4 6)) (- 1);
               day = parseInt (substring datePart 6 8);
               hour = parseInt (substring timePart 0 2);
               minute = parseInt (substring timePart 2 4);
               second = parseInt (substring timePart 4 6)
           in if endsWith dateTimeStr ''Z''
              then Inr (Date_UTC year month day hour minute second)
              else Inr (Date_local tz year month day hour minute second))
      | _ \<Rightarrow> Inl TypeError)"

section \<open>The record parser\<close>

definition parseEventProperty :: "zone \<Rightarrow> string \<Rightarrow> event \<Rightarrow> error + event" where
  "parseEventProperty tz line event =
     (if startsWith line ''SUMMARY:'' then
        Inr (event\<lparr>title := Some (trim (substring_from line 8))\<rparr>)
      else if startsWith line ''DTSTART;VALUE=DATE:'' then
        Inr (event\<lparr>isAllDay := Some True,
                   start := Some (parseIcsDate tz (substring_from line 19))\<rparr>)
      else if startsWith line ''DTSTART:'' then
        (case parseIcsDateTime tz (substring_from line 8) of
           Inl e \<Rightarrow> Inl e
         | Inr d \<Rightarrow> Inr (event\<lparr>isAllDay := Some False, start := Some d\<rparr>))
      else if startsWith line ''DTEND;VALUE=DATE:'' then
        Inr (event\<lparr>end' := Some (parseIcsDate tz (substring_from line 17))\<rparr>)
      else if startsWith line ''DTEND:'' then
        (case parseIcsDateTime tz (substring_from line 6) of
           Inl e \<Rightarrow> Inl e
         | Inr d \<Rightarrow> Inr (event\<lparr>end' := Some d\<rparr>))
      else if startsWith line ''DESCRIPTION:'' then
        Inr (event\<lparr>description := Some (substring_from line 12)\<rparr>)
      else if startsWith line ''LOCATION:'' then
        Inr (event\<lparr>location := Some (substring_from line 9)\<rparr>)
      else Inr event)"

text \<open>The variables of the loop of \<open>parseIcsContent\<close>.\<close>

record parser_state =
  events :: "event list"
  currentEvent :: "event option"
  inEvent :: bool

definition initial_state :: parser_state where
  "initial_state = \<lparr>events = [], currentEvent = None, inEvent = False\<rparr>"

text \<open>\<open>currentEvent?.title && currentEvent?.start\<close>\<close>

definition has_title_and_start :: "event option \<Rightarrow> bool" where
  "has_title_and_start ce =
     (case ce of None \<Rightarrow> False
      | Some e \<Rightarrow> truthy_string (title e) \<and> truthy_object (start e))"

text \<open>The body of the loop below the line continuation: one joined line.\<close>

definition process_line :: "zone \<Rightarrow> string \<Rightarrow> parser_state \<Rightarrow> error + parser_state" where
  "process_line tz line st =
     (if line = ''BEGIN:VEVENT'' then
        Inr (st\<lparr>currentEvent := Some empty_event, inEvent := True\<rparr>)
      else if line = ''END:VEVENT'' \<and> inEvent st then
        Inr (st\<lparr>events := (if has_title_and_start (currentEvent st)
                              then events st @ [the (currentEvent st)]
                              else events st),
                  currentEvent := None, inEvent := False\<rparr>)
      else if inEvent st \<and> currentEvent st \<noteq> None then
        (case parseEventProperty tz line (the (currentEvent st)) of
           Inl e \<Rightarrow> Inl e
         | Inr ev \<Rightarrow> Inr (st\<lparr>currentEvent := Some ev\<rparr>))
      else Inr st)"

definition TAB :: char where "TAB = CHR 0x09"

definition is_continuation :: "string \<Rightarrow> bool" where
  "is_continuation l = (startsWith l '' '' \<or> startsWith l [TAB])"

text \<open>
  The inner \<open>while\<close>: as long as the next line starts with a space or a tab, it is
  consumed and appended without its first character. The result is the joined line and
  the lines not yet consumed.
\<close>

fun continuation :: "string \<Rightarrow> string list \<Rightarrow> string \<times> string list" where
  "continuation line [] = (line, [])"
| "continuation line (l # ls) =
     (if is_continuation l then continuation (line @ substring_from l 1) ls
      else (line, l # ls))"

lemma continuation_length: "length (snd (continuation line ls)) \<le> length ls"
  by (induction ls arbitrary: line) (auto intro: le_SucI)

text \<open>The \<open>for\<close> loop over the lines.\<close>

function parse_lines :: "zone \<Rightarrow> string list \<Rightarrow> parser_state \<Rightarrow> error + parser_state" where
  "parse_lines tz [] st = Inr st"
| "parse_lines tz (l # ls) st =
     (case process_line tz (fst (continuation (trim l) ls)) st of
        Inl e \<Rightarrow> Inl e
      | Inr st' \<Rightarrow> parse_lines tz (snd (continuation (trim l) ls)) st')"
  by pat_completeness auto
termination
  by (relation "measure (\<lambda>(tz, ls, st). length ls)")
     (auto simp: continuation_length le_imp_less_Suc)

definition parseIcsContent :: "zone \<Rightarrow> string \<Rightarrow> error + event list" where
  "parseIcsContent tz content =
     (case parse_lines tz (split_lines content) initial_state of
        Inl e \<Rightarrow> Inl e
      | Inr st \<Rightarrow> Inr (events st))"

section \<open>Deduplication and reconciliation\<close>

definition formatDateKey :: "zone \<Rightarrow> date \<Rightarrow> string" where
  "formatDateKey tz date =
     (let year = getFullYear tz date;
          month = padStart (String_number (num_add (getMonth tz date) 1)) 2 CHR ''0'';
          day = padStart (String_number (getDate tz date)) 2 CHR ''0''
      in String_number year @ ''-'' @ month @ ''-'' @ day)"

text \<open>
  \<open>formatDateKey(event.start)\<close> throws when \<open>start\<close> is \<open>undefined\<close>, and
  \<open>event.title.toLowerCase()\<close> when \<open>title\<close> is.
\<close>

definition generateEventKey :: "zone \<Rightarrow> event \<Rightarrow> error + string" where
  "generateEventKey tz event =
     (case start event of
        None \<Rightarrow> Inl TypeError
      | Some d \<Rightarrow>
          (case title event of
             None \<Rightarrow> Inl TypeError
           | Some t \<Rightarrow> Inr (formatDateKey tz d @ ''|'' @ trim (toLowerCase t))))"

text \<open>The \<open>forEach\<close> of \<open>removeDuplicateEvents\<close>, with \<open>seenKeys\<close> and \<open>uniqueEvents\<close>.\<close>

fun dedup_loop :: "zone \<Rightarrow> event list \<Rightarrow> string set \<Rightarrow> event list \<Rightarrow> error + event list" where
  "dedup_loop tz [] seenKeys uniqueEvents = Inr uniqueEvents"
| "dedup_loop tz (e # es) seenKeys uniqueEvents =
     (case generateEventKey tz e of
        Inl err \<Rightarrow> Inl err
      | Inr key \<Rightarrow>
          (if key \<notin> seenKeys then dedup_loop tz es (insert key seenKeys) (uniqueEvents @ [e])
           else dedup_loop tz es seenKeys uniqueEvents))"

definition removeDuplicateEvents :: "zone \<Rightarrow> event list \<Rightarrow> error + event list" where
  "removeDuplicateEvents tz evs = dedup_loop tz evs {} []"

fun filterEventsToCreate :: "zone \<Rightarrow> event list \<Rightarrow> string set \<Rightarrow> error + event list" where
  "filterEventsToCreate tz [] existingKeys = Inr []"
| "filterEventsToCreate tz (e # es) existingKeys =
     (case generateEventKey tz e of
        Inl err \<Rightarrow> Inl err
      | Inr key \<Rightarrow>
          (case filterEventsToCreate tz es existingKeys of
             Inl err \<Rightarrow> Inl err
           | Inr rest \<Rightarrow> Inr (if key \<notin> existingKeys then e # rest else rest)))"

text \<open>\<open>new Date(x)\<close> for a date or \<open>undefined\<close>.\<close>

definition new_Date :: "date option \<Rightarrow> date" where
  "new_Date v = (case v of None \<Rightarrow> InvalidDate | Some d \<Rightarrow> d)"

text \<open>The \<open>forEach\<close> of \<open>getEventDateRange\<close>, on the pair \<open>(minDate, maxDate)\<close>.\<close>

fun range_loop :: "event list \<Rightarrow> date \<times> date \<Rightarrow> date \<times> date" where
  "range_loop [] mm = mm"
| "range_loop (e # es) (minDate, maxDate) =
     (let eventDate = new_Date (start e);
          minDate' = (if date_less eventDate minDate then eventDate else minDate);
          maxDate' = (if date_less maxDate eventDate then eventDate else maxDate)
      in range_loop es (minDate', maxDate'))"

text \<open>The result \<open>{ start, end }\<close> is a pair; \<open>None\<close> is \<open>null\<close>.\<close>

definition getEventDateRange :: "zone \<Rightarrow> event list \<Rightarrow> date option \<times> date option" where
  "getEventDateRange tz evs =
     (case evs of
        [] \<Rightarrow> (None, None)
      | first # _ \<Rightarrow>
          (let (minDate, maxDate) =
                 range_loop evs (new_Date (start first), new_Date (start first));
               s0 = minDate;
               s1 = setDate tz s0 (num_add (getDate tz s0) (- 1));
               s2 = setHours tz s1 0 0 0 0;
               e0 = maxDate;
               e1 = setDate tz e0 (num_add (getDate tz e0) 1);
               e2 = setHours tz e1 23 59 59 999
           in (Some s2, Some e2)))"

text \<open>
  The calendar store: what \<open>calendar.getEvents(start, end)\<close> returns, each entry with
  the four getters the code reads.
\<close>

record calendar_event =
  isAllDayEvent :: bool
  getAllDayStartDate :: date
  getStartTime :: date
  getTitle :: string

type_synonym calendar = "date \<Rightarrow> date \<Rightarrow> calendar_event list"

definition existing_key :: "zone \<Rightarrow> calendar_event \<Rightarrow> string" where
  "existing_key tz ev =
     (let eventDate = (if isAllDayEvent ev then getAllDayStartDate ev else getStartTime ev)
      in formatDateKey tz eventDate @ ''|'' @ trim (toLowerCase (getTitle ev)))"

text \<open>
  The result is the key set, paired with the list of the windows with which
  \<open>calendar.getEvents\<close> was called.
\<close>

definition getExistingCalendarEvents ::
    "zone \<Rightarrow> calendar \<Rightarrow> event list \<Rightarrow> (date \<times> date) list \<times> string set" where
  "getExistingCalendarEvents tz cal evs =
     (case getEventDateRange tz evs of
        (Some s, Some e) \<Rightarrow> ([(s, e)], set (map (existing_key tz) (cal s e)))
      | _ \<Rightarrow> ([], {}))"

section \<open>The error ledger and the retry merge\<close>

text \<open>
  The ledger is what \<open>sheet.getDataRange().getValues()\<close> returns: rows of cells, the
  first one the header. The cells are text, as the ledger's row shape has them; a cell
  beyond the end of a row reads as \<open>undefined\<close>, which the code treats as it treats the
  empty text. \<open>Date_parse\<close> is what \<open>new Date(text)\<close> gives, left to the engine by
  ECMAScript for most formats and taken as a parameter.
\<close>

definition cell :: "string list \<Rightarrow> nat \<Rightarrow> string" where
  "cell row k = (if k < length row then row ! k else [])"

definition row_event :: "(string \<Rightarrow> date) \<Rightarrow> nat \<Rightarrow> string list \<Rightarrow> event" where
  "row_event Date_parse i row =
     \<lparr>title = Some (cell row 0),
      start = Some (Date_parse (cell row 1)),
      end' = (if cell row 2 \<noteq> [] then Some (Date_parse (cell row 2)) else None),
      isAllDay = Some (cell row 3 = ''TRUE''),
      description = Some (cell row 4),
      location = Some (cell row 5),
      rowIndex = Some (i + 1)\<rparr>"

text \<open>The \<open>for\<close> loop from \<open>i = 1\<close>: \<open>rows\<close> are \<open>data[i], data[i+1], ...\<close>.\<close>

fun error_rows :: "(string \<Rightarrow> date) \<Rightarrow> nat \<Rightarrow> string list list \<Rightarrow> event list" where
  "error_rows Date_parse i [] = []"
| "error_rows Date_parse i (row # rows) =
     (if cell row 0 \<noteq> [] \<and> cell row 1 \<noteq> []
      then row_event Date_parse i row # error_rows Date_parse (i + 1) rows
      else error_rows Date_parse (i + 1) rows)"

text \<open>An exception of the sheet service is caught and gives the empty list.\<close>

definition getErrorEvents :: "(string \<Rightarrow> date) \<Rightarrow> error + string list list \<Rightarrow> event list" where
  "getErrorEvents Date_parse sheet =
     (case sheet of
        Inl e \<Rightarrow> []
      | Inr data \<Rightarrow> (if length data \<le> 1 then [] else error_rows Date_parse 1 (drop 1 data)))"

text \<open>Steps 1 to 5 of \<open>importIcsToCalendar\<close>: the value of \<open>allEventsToProcess\<close>.\<close>

definition allEventsToProcess ::
    "zone \<Rightarrow> (string \<Rightarrow> date) \<Rightarrow> string \<Rightarrow> calendar \<Rightarrow> error + string list list \<Rightarrow> error + event list" where
  "allEventsToProcess tz Date_parse content cal sheet =
     (case parseIcsContent tz content of
        Inl e \<Rightarrow> Inl e
      | Inr evs \<Rightarrow>
          (case removeDuplicateEvents tz evs of
             Inl e \<Rightarrow> Inl e
           | Inr uniqueEvents \<Rightarrow>
               (let existingEvents = snd (getExistingCalendarEvents tz cal uniqueEvents) in
                case filterEventsToCreate tz uniqueEvents existingEvents of
                  Inl e \<Rightarrow> Inl e
                | Inr eventsToCreate \<Rightarrow>
                    Inr (eventsToCreate @ getErrorEvents Date_parse sheet))))"

section \<open>Notions used in the properties\<close>

text \<open>
  The joined lines that the loop of \<open>parseIcsContent\<close> hands to its body, one after
  the other, and the loop as a run of its body over them.
\<close>

function logical_lines :: "string list \<Rightarrow> string list" where
  "logical_lines [] = []"
| "logical_lines (l # ls) =
     fst (continuation (trim l) ls) # logical_lines (snd (continuation (trim l) ls))"
  by pat_completeness auto
termination
  by (relation "measure length") (auto simp: continuation_length le_imp_less_Suc)

fun run :: "zone \<Rightarrow> string list \<Rightarrow> parser_state \<Rightarrow> error + parser_state" where
  "run tz [] st = Inr st"
| "run tz (line # rest) st =
     (case process_line tz line st of
        Inl e \<Rightarrow> Inl e
      | Inr st' \<Rightarrow> run tz rest st')"

text \<open>The property lines of a block, applied to the accumulating record in order.\<close>

fun accumulate :: "zone \<Rightarrow> string list \<Rightarrow> event \<Rightarrow> error + event" where
  "accumulate tz [] ev = Inr ev"
| "accumulate tz (p # ps) ev =
     (case parseEventProperty tz p ev of
        Inl e \<Rightarrow> Inl e
      | Inr ev' \<Rightarrow> accumulate tz ps ev')"

text \<open>
  The reconciliation key of a record that has a title and a start, as the
  specification words it: the calendar day of the start, a bar, and the title
  lowercased and trimmed.
\<close>

definition reconciliation_key :: "zone \<Rightarrow> event \<Rightarrow> string" where
  "reconciliation_key tz e =
     formatDateKey tz (the (start e)) @ ''|'' @ trim (toLowerCase (the (title e)))"

text \<open>
  The first occurrences of each key, as the specification words them: the elements
  whose key does not occur among the elements before them, in their original order.
\<close>

definition first_occurrences :: "('a \<Rightarrow> 'k) \<Rightarrow> 'a list \<Rightarrow> 'a list" where
  "first_occurrences key xs =
     map (\<lambda>i. xs ! i) (filter (\<lambda>i. key (xs ! i) \<notin> key ` set (take i xs)) [0..<length xs])"

text \<open>The same list computed front to back with the set of the keys seen so far.\<close>

fun firsts :: "('a \<Rightarrow> 'k) \<Rightarrow> 'k set \<Rightarrow> 'a list \<Rightarrow> 'a list" where
  "firsts key seen [] = []"
| "firsts key seen (x # xs) =
     (if key x \<in> seen then firsts key seen xs
      else x # firsts key (insert (key x) seen) xs)"

text \<open>A number below 100 written with two decimal digits, one below 10000 with four.\<close>

definition two_digits :: "nat \<Rightarrow> string" where
  "two_digits n = [char_of (48 + n div 10), char_of (48 + n mod 10)]"

definition four_digits :: "nat \<Rightarrow> string" where
  "four_digits n =
     [char_of (48 + n div 1000), char_of (48 + n div 100 mod 10),
      char_of (48 + n div 10 mod 10), char_of (48 + n mod 10)]"

text \<open>The time value of the start of a record whose start is a valid date.\<close>

definition start_time :: "event \<Rightarrow> int" where
  "start_time e = (case start e of Some (Date t) \<Rightarrow> t | _ \<Rightarrow> 0)"

text \<open>
  The local day on which the wall-clock time of the instant \<open>t\<close>, moved by \<open>k\<close> calendar
  days, falls: the wall-clock time is read in the zone, moved, taken back to an instant
  and read again.
\<close>

definition moved_day :: "zone \<Rightarrow> int \<Rightarrow> int \<Rightarrow> int" where
  "moved_day tz t k = Day (LocalTime tz (UTC tz (LocalTime tz t + k * msPerDay)))"


definition apia_2011 :: zone where
  "apia_2011 t isUTC =
     (if isUTC then (if t < 1325239200000 then - 36000000 else 50400000)
      else (if t < 1325289600000 then - 36000000 else 50400000))"

text \<open>The number of days of month \<open>m\<close> (0 to 11) of year \<open>y\<close>.\<close>

definition days_in_month :: "int \<Rightarrow> int \<Rightarrow> int" where
  "days_in_month y m =
     (if m = 1 then (if DaysInYear y = 366 then 29 else 28)
      else if m = 3 \<or> m = 5 \<or> m = 8 \<or> m = 10 then 30
      else 31)"

text \<open>The UTC date-time token \<open>YYYYMMDDTHHMMSSZ\<close> of six fields.\<close>

definition utc_token :: "nat \<Rightarrow> nat \<Rightarrow> nat \<Rightarrow> nat \<Rightarrow> nat \<Rightarrow> nat \<Rightarrow> string" where
  "utc_token y mo d h mi s =
     four_digits y @ two_digits mo @ two_digits d @ ''T'' @
     two_digits h @ two_digits mi @ two_digits s @ ''Z''"

section \<open>The date-time decoder: when it throws\<close>

lemma split_char_not_Nil: "split_char c s \<noteq> []"
  by (induction s) (auto split: list.splits)

lemma split_char_single: "(\<exists>p. split_char c s = [p]) \<longleftrightarrow> c \<notin> set s"
  by (induction s) (auto split: list.splits simp: split_char_not_Nil)

lemma Date_UTC_NaN:
  "y = None \<or> m = None \<or> d = None \<or> h = None \<or> mi = None \<or> s = None
   \<Longrightarrow> Date_UTC y m d h mi s = InvalidDate"
  by (auto simp: Date_UTC_def split: option.splits)

lemma Date_local_NaN:
  "y = None \<or> m = None \<or> d = None \<or> h = None \<or> mi = None \<or> s = None
   \<Longrightarrow> Date_local tz y m d h mi s = InvalidDate"
  by (auto simp: Date_local_def split: option.splits)

text \<open>
  Claim C10. \<open>parseIcsDateTime\<close> throws exactly when its token contains no \<open>T\<close>. For
  every token that contains a \<open>T\<close> it returns a date; when one of the six numeric
  fields does not parse (\<open>parseInt\<close> gives NaN), the date returned is the invalid date.
\<close>

theorem parseIcsDateTime_throws_iff_no_T:
  "(parseIcsDateTime tz s = Inl TypeError \<longleftrightarrow> CHR ''T'' \<notin> set s) \<and>
   (CHR ''T'' \<in> set s \<longrightarrow> (\<exists>d. parseIcsDateTime tz s = Inr d)) \<and>
   (CHR ''T'' \<in> set s \<longrightarrow>
      (let datePart = split_char CHR ''T'' s ! 0; timePart = split_char CHR ''T'' s ! 1 in
       parseInt (substring datePart 0 4) = None \<or> parseInt (substring datePart 4 6) = None \<or>
       parseInt (substring datePart 6 8) = None \<or> parseInt (substring timePart 0 2) = None \<or>
       parseInt (substring timePart 2 4) = None \<or> parseInt (substring timePart 4 6) = None)
      \<longrightarrow> parseIcsDateTime tz s = Inr InvalidDate)"
proof (cases "split_char CHR ''T'' s")
  case Nil
  then show ?thesis by (simp add: split_char_not_Nil)
next
  case (Cons p ps)
  show ?thesis
  proof (cases ps)
    case Nil
    with Cons have one: "split_char CHR ''T'' s = [p]" by simp
    then have "CHR ''T'' \<notin> set s" using split_char_single by blast
    with one show ?thesis by (simp add: parseIcsDateTime_def)
  next
    case (Cons q qs)
    with \<open>split_char CHR ''T'' s = p # ps\<close> have two: "split_char CHR ''T'' s = p # q # qs" by simp
    then have "\<not> (\<exists>r. split_char CHR ''T'' s = [r])" by simp
    then have T: "CHR ''T'' \<in> set s" using split_char_single by blast
    show ?thesis using two T
      by (auto simp: parseIcsDateTime_def Let_def num_add_def Date_UTC_NaN Date_local_NaN)
  qed
qed

theorem parseIcsDateTime_throws_iff_no_T_witness:
  "parseIcsDateTime (fixed_zone 0) ''20240105'' = Inl TypeError \<and> parseIcsDateTime (fixed_zone 0) ''T'' = Inr InvalidDate"
proof -
  have a: "CHR ''T'' \<notin> set ''20240105''" by simp
  have b: "CHR ''T'' \<in> set ''T''" by simp
  have c: "parseInt (substring (split_char CHR ''T'' ''T'' ! 0) 0 4) = None" by code_simp
  from parseIcsDateTime_throws_iff_no_T [of "fixed_zone 0" "''20240105''"] a
  have 1: "parseIcsDateTime (fixed_zone 0) ''20240105'' = Inl TypeError" by blast
  from parseIcsDateTime_throws_iff_no_T [of "fixed_zone 0" "''T''"] b c
  have 2: "parseIcsDateTime (fixed_zone 0) ''T'' = Inr InvalidDate" by (simp add: Let_def)
  from 1 2 show ?thesis by simp
qed

section \<open>Date-only properties\<close>

text \<open>
  Claim C8, as the specification states it, fails for the end property: a date-only
  \<open>DTEND\<close> does not touch the all-day flag. A record with a timed start keeps
  \<open>isAllDay = false\<close> after \<open>DTEND;VALUE=DATE:20240106\<close>.
\<close>

theorem date_only_end_not_all_day:
  "parseEventProperty (fixed_zone 0) ''DTEND;VALUE=DATE:20240106''
     (empty_event\<lparr>isAllDay := Some False, start := Some (Date 1704448800000)\<rparr>) =
   Inr \<lparr>title = None, start = Some (Date 1704448800000), end' = Some (Date 1704499200000),
        isAllDay = Some False, description = None, location = None, rowIndex = None\<rparr>"
  by code_simp

text \<open>
  Claim C8, amended. A date-only start property flags the record all-day and decodes
  its value with \<open>parseIcsDate\<close>; a date-only end property decodes its value with
  \<open>parseIcsDate\<close> and leaves every other field, the all-day flag included, as it was.
\<close>

theorem date_only_properties:
  "parseEventProperty tz (''DTSTART;VALUE=DATE:'' @ v) ev =
     Inr (ev\<lparr>isAllDay := Some True, start := Some (parseIcsDate tz v)\<rparr>) \<and>
   parseEventProperty tz (''DTEND;VALUE=DATE:'' @ v) ev =
     Inr (ev\<lparr>end' := Some (parseIcsDate tz v)\<rparr>)"
  by (simp add: parseEventProperty_def startsWith_def substring_from_def)

section \<open>The line unfolder\<close>

lemma parse_lines_run: "parse_lines tz ls st = run tz (logical_lines ls) st"
  by (induction tz ls st rule: parse_lines.induct) (auto split: sum.splits)

lemma parseIcsContent_run:
  "parseIcsContent tz content =
     (case run tz (logical_lines (split_lines content)) initial_state of
        Inl e \<Rightarrow> Inl e
      | Inr st \<Rightarrow> Inr (events st))"
  by (simp add: parseIcsContent_def parse_lines_run)

lemma continuation_takeWhile:
  "continuation line ls =
     (line @ concat (map (\<lambda>c. substring_from c 1) (takeWhile is_continuation ls)),
      dropWhile is_continuation ls)"
  by (induction ls arbitrary: line) auto

lemma is_continuation_marker: "w = CHR '' '' \<or> w = TAB \<Longrightarrow> is_continuation (w # seg)"
  by (auto simp: is_continuation_def startsWith_def)

text \<open>
  Apart from the first segment the unfolder is exact. Let a logical line be split into
  a first segment \<open>seg0\<close> and further segments, each of these written on a line of its
  own behind one space or tab. When \<open>seg0\<close> has no white space at its ends, the
  unfolder yields the segments joined with no separator and nothing removed.
\<close>

lemma unfold_exact_after_first_segment:
  assumes "\<forall>(w, seg) \<in> set ms. w = CHR '' '' \<or> w = TAB"
      and "rest = [] \<or> \<not> is_continuation (hd rest)"
      and "trim seg0 = seg0"
    shows "logical_lines ((seg0 # map (\<lambda>(w, seg). w # seg) ms) @ rest) =
             (seg0 @ concat (map snd ms)) # logical_lines rest"
proof -
  let ?cs = "map (\<lambda>(w, seg). w # seg) ms"
  have all: "\<forall>c \<in> set ?cs. is_continuation c"
    using assms(1) by (auto simp: is_continuation_marker)
  have stop: "takeWhile is_continuation rest = [] \<and> dropWhile is_continuation rest = rest"
    using assms(2) by (cases rest) auto
  have "takeWhile is_continuation (?cs @ rest) = ?cs @ takeWhile is_continuation rest"
    using all by (intro takeWhile_append2) blast
  then have tw: "takeWhile is_continuation (?cs @ rest) = ?cs"
    using stop by simp
  have "dropWhile is_continuation (?cs @ rest) = dropWhile is_continuation rest"
    using all by (intro dropWhile_append2) blast
  then have dw: "dropWhile is_continuation (?cs @ rest) = rest"
    using stop by simp
  have strip: "map (\<lambda>c. substring_from c 1) ?cs = map snd ms"
    by (induction ms) (auto simp: substring_from_def)
  have "continuation (trim seg0) (?cs @ rest) = (trim seg0 @ concat (map snd ms), rest)"
    by (simp only: continuation_takeWhile tw dw strip)
  then have "logical_lines ((seg0 # ?cs) @ rest) =
      (trim seg0 @ concat (map snd ms)) # logical_lines rest"
    by simp
  then show ?thesis by (simp only: assms(3))
qed

text \<open>
  Claim C7 is what the loop sets out to do, and the code misses it at the first fold:
  \<open>lines[i].trim()\<close> runs before the continuation lines are appended, so the white
  space that ends the first physical line is removed, while the same white space
  before a later fold is kept. The logical line \<open>DESCRIPTION:a bc\<close> folded as
  \<open>DESCRIPTION:a \<close>, \<open> b\<close>, \<open> c\<close> unfolds to \<open>DESCRIPTION:abc\<close>, without its space;
  folded as \<open>DESCRIPTION:a\<close>, \<open>  b\<close>, \<open> c\<close> or as \<open>DESCRIPTION:a\<close>, \<open> b \<close>,
  \<open> c\<close> (for \<open>DESCRIPTION:ab c\<close>) it unfolds exactly.
\<close>

theorem unfold_drops_space_before_first_fold:
  "logical_lines [''DESCRIPTION:a '', '' b'', '' c''] = [''DESCRIPTION:abc''] \<and>
   ''DESCRIPTION:a '' @ ''b'' @ ''c'' = ''DESCRIPTION:a bc'' \<and>
   logical_lines [''DESCRIPTION:a'', ''  b'', '' c''] = [''DESCRIPTION:a bc''] \<and>
   logical_lines [''DESCRIPTION:a'', '' b '', '' c''] = [''DESCRIPTION:ab c'']"
  by code_simp

section \<open>The four cases of the loop body\<close>

lemma process_line_BEGIN:
  "process_line tz ''BEGIN:VEVENT'' st =
     Inr (st\<lparr>currentEvent := Some empty_event, inEvent := True\<rparr>)"
  by (simp add: process_line_def)

lemma process_line_END:
  "inEvent st \<Longrightarrow> process_line tz ''END:VEVENT'' st =
     Inr (st\<lparr>events := (if has_title_and_start (currentEvent st)
                          then events st @ [the (currentEvent st)] else events st),
              currentEvent := None, inEvent := False\<rparr>)"
  by (simp add: process_line_def)

lemma process_line_property:
  "line \<noteq> ''BEGIN:VEVENT'' \<Longrightarrow> line \<noteq> ''END:VEVENT'' \<Longrightarrow> inEvent st \<Longrightarrow>
   currentEvent st = Some ev \<Longrightarrow>
   process_line tz line st =
     (case parseEventProperty tz line ev of
        Inl e \<Rightarrow> Inl e
      | Inr ev' \<Rightarrow> Inr (st\<lparr>currentEvent := Some ev'\<rparr>))"
  by (simp add: process_line_def)

lemma process_line_outside:
  "line \<noteq> ''BEGIN:VEVENT'' \<Longrightarrow> \<not> inEvent st \<Longrightarrow> process_line tz line st = Inr st"
  by (simp add: process_line_def)

lemma process_line_no_current:
  "line \<noteq> ''BEGIN:VEVENT'' \<Longrightarrow> line \<noteq> ''END:VEVENT'' \<Longrightarrow> currentEvent st = None \<Longrightarrow>
   process_line tz line st = Inr st"
  by (simp add: process_line_def)

lemma process_line_events:
  assumes "process_line tz line st = Inr st'"
  shows "events st' = events st \<or>
         (has_title_and_start (currentEvent st) \<and> events st' = events st @ [the (currentEvent st)])"
proof -
  consider (b) "line = ''BEGIN:VEVENT''"
    | (e) "line = ''END:VEVENT''" "inEvent st"
    | (p) ev where "line \<noteq> ''BEGIN:VEVENT''" "line \<noteq> ''END:VEVENT''" "inEvent st" "currentEvent st = Some ev"
    | (n) "line \<noteq> ''BEGIN:VEVENT''" "line \<noteq> ''END:VEVENT''" "currentEvent st = None"
    | (o) "line \<noteq> ''BEGIN:VEVENT''" "\<not> inEvent st"
    by (cases "currentEvent st") blast+
  then show ?thesis
  proof cases
    case b
    with assms show ?thesis by (simp only: process_line_BEGIN) auto
  next
    case e
    with assms show ?thesis by (simp only: process_line_END) (auto split: if_splits)
  next
    case p
    with assms show ?thesis
      by (simp only: process_line_property [OF p])
         (cases "parseEventProperty tz line ev"; auto)
  next
    case n
    with assms show ?thesis by (simp only: process_line_no_current [OF n]) auto
  next
    case o
    with assms show ?thesis by (simp only: process_line_outside [OF o]) auto
  qed
qed

section \<open>Text properties\<close>

lemma parseEventProperty_text:
  "parseEventProperty tz (''SUMMARY:'' @ v) ev = Inr (ev\<lparr>title := Some (trim v)\<rparr>)"
  "parseEventProperty tz (''DESCRIPTION:'' @ v) ev = Inr (ev\<lparr>description := Some v\<rparr>)"
  "parseEventProperty tz (''LOCATION:'' @ v) ev = Inr (ev\<lparr>location := Some v\<rparr>)"
  by (simp_all add: parseEventProperty_def startsWith_def substring_from_def)

text \<open>
  Claim C9 is what \<open>parseEventProperty\<close> does with the line it is given
  (\<open>parseEventProperty_text\<close>: description and location verbatim, summary trimmed),
  and the code misses it one step earlier: \<open>lines[i].trim()\<close> has already removed the
  white space at the end of the physical line. \<open>DESCRIPTION:foo \<close> on a line of its
  own stores \<open>foo\<close>, without its space; the same value folded as \<open>DESCRIPTION:fo\<close>,
  \<open> o \<close> stores \<open>foo \<close>, with it.
\<close>

theorem description_loses_trailing_space:
  "parseIcsContent (fixed_zone 0)
     (''BEGIN:VEVENT'' @ [LF] @ ''SUMMARY:A'' @ [LF] @ ''DTSTART;VALUE=DATE:20240105'' @ [LF] @
      ''DESCRIPTION:foo '' @ [LF] @ ''END:VEVENT'') =
   Inr [\<lparr>title = Some ''A'', start = Some (Date 1704412800000), end' = None,
         isAllDay = Some True, description = Some ''foo'', location = None,
         rowIndex = None\<rparr>] \<and>
   parseIcsContent (fixed_zone 0)
     (''BEGIN:VEVENT'' @ [LF] @ ''SUMMARY:A'' @ [LF] @ ''DTSTART;VALUE=DATE:20240105'' @ [LF] @
      ''DESCRIPTION:fo'' @ [LF] @ '' o '' @ [LF] @ ''END:VEVENT'') =
   Inr [\<lparr>title = Some ''A'', start = Some (Date 1704412800000), end' = None,
         isAllDay = Some True, description = Some ''foo '', location = None,
         rowIndex = None\<rparr>]"
  by code_simp

section \<open>Blocks\<close>

lemma run_append:
  "run tz (xs @ ys) st = (case run tz xs st of Inl e \<Rightarrow> Inl e | Inr st' \<Rightarrow> run tz ys st')"
  by (induction xs arbitrary: st) (auto split: sum.splits)

lemma run_properties:
  assumes "\<forall>p \<in> set props. p \<noteq> ''BEGIN:VEVENT'' \<and> p \<noteq> ''END:VEVENT''"
      and "inEvent st" and "currentEvent st = Some ev"
    shows "run tz props st =
             (case accumulate tz props ev of
                Inl e \<Rightarrow> Inl e
              | Inr ev' \<Rightarrow> Inr (st\<lparr>currentEvent := Some ev'\<rparr>))"
  using assms
proof (induction props arbitrary: st ev)
  case Nil
  then show ?case by simp
next
  case (Cons p props)
  have step: "process_line tz p st =
      (case parseEventProperty tz p ev of
         Inl e \<Rightarrow> Inl e
       | Inr ev' \<Rightarrow> Inr (st\<lparr>currentEvent := Some ev'\<rparr>))"
    using Cons.prems by (intro process_line_property) auto
  show ?case
  proof (cases "parseEventProperty tz p ev")
    case (Inl e)
    with step show ?thesis by simp
  next
    case (Inr ev')
    have "run tz props (st\<lparr>currentEvent := Some ev'\<rparr>) =
        (case accumulate tz props ev' of
           Inl e \<Rightarrow> Inl e
         | Inr ev'' \<Rightarrow> Inr (st\<lparr>currentEvent := Some ev', currentEvent := Some ev''\<rparr>))"
      using Cons.prems by (intro Cons.IH) auto
    with step Inr show ?thesis by (simp split: sum.splits)
  qed
qed

text \<open>Every record in the output has a non-empty title and a start.\<close>

lemma process_line_complete:
  assumes "process_line tz line st = Inr st'"
      and "\<forall>e \<in> set (events st). truthy_string (title e) \<and> truthy_object (start e)"
    shows "\<forall>e \<in> set (events st'). truthy_string (title e) \<and> truthy_object (start e)"
proof -
  from process_line_events [OF assms(1)] show ?thesis
  proof
    assume "events st' = events st"
    with assms(2) show ?thesis by simp
  next
    assume a: "has_title_and_start (currentEvent st) \<and>
        events st' = events st @ [the (currentEvent st)]"
    then have "truthy_string (title (the (currentEvent st))) \<and>
        truthy_object (start (the (currentEvent st)))"
      by (cases "currentEvent st") (simp_all add: has_title_and_start_def)
    with a assms(2) show ?thesis by auto
  qed
qed

lemma run_complete:
  assumes "run tz ls st = Inr st'"
      and "\<forall>e \<in> set (events st). truthy_string (title e) \<and> truthy_object (start e)"
    shows "\<forall>e \<in> set (events st'). truthy_string (title e) \<and> truthy_object (start e)"
  using assms
proof (induction ls arbitrary: st)
  case Nil
  then show ?case by simp
next
  case (Cons l ls)
  from Cons.prems(1) obtain st1
    where 1: "process_line tz l st = Inr st1" and 2: "run tz ls st1 = Inr st'"
    by (cases "process_line tz l st") simp_all
  from process_line_complete [OF 1 Cons.prems(2)] Cons.IH [OF 2] show ?case by blast
qed

lemma parseIcsContent_complete:
  "parseIcsContent tz content = Inr evs \<Longrightarrow>
   \<forall>e \<in> set evs. truthy_string (title e) \<and> truthy_object (start e)"
  using run_complete [of tz "logical_lines (split_lines content)" initial_state]
  by (auto simp: parseIcsContent_run initial_state_def split: sum.splits)

text \<open>
  A block is \<open>BEGIN:VEVENT\<close>, property lines, \<open>END:VEVENT\<close>. When no property decoder
  throws, the parser passes the block without an error and appends the accumulated
  record to the output if and only if, at \<open>END:VEVENT\<close>, the record has a title (a
  non-empty one: the test is JavaScript truthiness) and a start; otherwise the output
  is as it was before the block.
\<close>

lemma block_emits_iff_title_and_start:
  assumes "\<forall>p \<in> set props. p \<noteq> ''BEGIN:VEVENT'' \<and> p \<noteq> ''END:VEVENT''"
      and "accumulate tz props empty_event = Inr ev"
    shows "run tz (''BEGIN:VEVENT'' # props @ [''END:VEVENT'']) st =
             Inr (st\<lparr>events := (if truthy_string (title ev) \<and> truthy_object (start ev)
                                  then events st @ [ev] else events st),
                      currentEvent := None, inEvent := False\<rparr>)"
proof -
  let ?st1 = "st\<lparr>currentEvent := Some empty_event, inEvent := True\<rparr>"
  have b: "process_line tz ''BEGIN:VEVENT'' st = Inr ?st1"
    by (rule process_line_BEGIN)
  have p: "run tz props ?st1 = Inr (?st1\<lparr>currentEvent := Some ev\<rparr>)"
    using run_properties [OF assms(1), of ?st1 empty_event tz] assms(2) by simp
  have e: "process_line tz ''END:VEVENT'' (?st1\<lparr>currentEvent := Some ev\<rparr>) =
      Inr (st\<lparr>events := (if truthy_string (title ev) \<and> truthy_object (start ev)
                           then events st @ [ev] else events st),
               currentEvent := None, inEvent := False\<rparr>)"
    by (simp add: process_line_END has_title_and_start_def)
  show ?thesis
    using b p e by (simp add: run_append)
qed

text \<open>
  Claim C1 is what the test at \<open>END:VEVENT\<close> sets out to do, and the code misses it for
  a block whose date-time value has no \<open>T\<close>: \<open>parseIcsDateTime\<close> then calls
  \<open>substring\<close> on \<open>undefined\<close>, and nothing in \<open>parseIcsContent\<close> catches the
  TypeError. The block \<open>BEGIN:VEVENT\<close>, \<open>DTSTART:20240105\<close>, \<open>END:VEVENT\<close> has no
  summary, and instead of being dropped it makes the whole parse throw. The same block
  with a value that has a \<open>T\<close> but no digits, or with a date-only value without
  digits, is dropped with no error.
\<close>

theorem block_without_T_throws:
  "parseIcsContent (fixed_zone 0)
     (''BEGIN:VEVENT'' @ [LF] @ ''DTSTART:20240105'' @ [LF] @ ''END:VEVENT'') = Inl TypeError \<and>
   parseIcsContent (fixed_zone 0)
     (''BEGIN:VEVENT'' @ [LF] @ ''DTSTART:xxTyy'' @ [LF] @ ''END:VEVENT'') = Inr [] \<and>
   parseIcsContent (fixed_zone 0)
     (''BEGIN:VEVENT'' @ [LF] @ ''DTSTART;VALUE=DATE:xx'' @ [LF] @ ''END:VEVENT'') = Inr []"
  by code_simp

section \<open>Calendar arithmetic\<close>

lemma DayFromYear_1601:
  "DayFromYear (1601 + k) = 365 * k + k div 4 - k div 100 + k div 400 - 134774"
proof -
  have 1: "(k - 368) div 4 = k div 4 - 92"
    using div_mult_self1 [of 4 k "- 92"] by simp
  have 2: "(k - 300) div 100 = k div 100 - 3"
    using div_mult_self1 [of 100 k "- 3"] by simp
  show ?thesis
    by (simp add: DayFromYear_def 1 2)
qed

lemma DayFromYear_cycles:
  assumes "0 \<le> c" "c \<le> 3" "0 \<le> q4" "q4 \<le> 24" "0 \<le> a" "a \<le> 3"
  shows "DayFromYear (1601 + (400 * q + 100 * c + 4 * q4 + a)) =
           146097 * q + 36524 * c + 1461 * q4 + 365 * a - 134774"
proof -
  let ?k = "400 * q + 100 * c + 4 * q4 + a"
  have d4: "?k div 4 = 100 * q + 25 * c + q4"
    by (rule int_div_pos_eq [where r = a]) (use assms in auto)
  have d100: "?k div 100 = 4 * q + c"
    by (rule int_div_pos_eq [where r = "4 * q4 + a"]) (use assms in auto)
  have d400: "?k div 400 = q"
    by (rule int_div_pos_eq [where r = "100 * c + 4 * q4 + a"]) (use assms in auto)
  show ?thesis
    by (simp add: DayFromYear_1601 d4 d100 d400)
qed

lemma YearFromDay_bounds:
  "DayFromYear (YearFromDay d) \<le> d \<and> d < DayFromYear (YearFromDay d + 1)"
proof -
  define n where "n = d + 134774"
  define q where "q = n div 146097"
  define r where "r = n mod 146097"
  define e where "e = r div 36524"
  define f where "f = r mod 36524"
  define c where "c = min e 3"
  define r2 where "r2 = r - c * 36524"
  define q4 where "q4 = r2 div 1461"
  define r3 where "r3 = r2 mod 1461"
  define g where "g = r3 div 365"
  define h where "h = r3 mod 365"
  define a where "a = min g 3"
  have "YearFromDay d = 1601 + 400 * q + 100 * c + 4 * q4 + a"
    unfolding YearFromDay_def Let_def a_def g_def r3_def q4_def r2_def c_def e_def r_def q_def n_def
    by (rule refl)
  then have Y: "YearFromDay d = 1601 + (400 * q + 100 * c + 4 * q4 + a)"
    by linarith
  have n: "n = 146097 * q + r" and r: "0 \<le> r" "r < 146097"
    by (simp_all add: q_def r_def)
  have ef: "r = 36524 * e + f" "0 \<le> f" "f < 36524"
    by (simp_all add: e_def f_def)
  have e: "0 \<le> e" "e \<le> 4" using ef r by linarith+
  have c: "0 \<le> c" "c \<le> 3" using e by (simp_all add: c_def)
  have c_cases: "(c = e \<and> e \<le> 3) \<or> (c = 3 \<and> e = 4)"
    using e by (auto simp: c_def)
  have r2: "0 \<le> r2" "r2 \<le> 36524"
    using c_cases ef r unfolding r2_def by (elim disjE conjE; linarith)+
  have r2_lt: "r2 < 36524" if "c < 3"
    using that c_cases ef r unfolding r2_def by (elim disjE conjE; linarith)
  have q4r3: "r2 = 1461 * q4 + r3" "0 \<le> r3" "r3 < 1461"
    by (simp_all add: q4_def r3_def)
  have q4: "0 \<le> q4" "q4 \<le> 24" using q4r3 r2 by linarith+
  have gh: "r3 = 365 * g + h" "0 \<le> h" "h < 365"
    by (simp_all add: g_def h_def)
  have g: "0 \<le> g" "g \<le> 4" using gh q4r3 by linarith+
  have a: "0 \<le> a" "a \<le> 3" using g by (simp_all add: a_def)
  have a_cases: "(a = g \<and> g \<le> 3) \<or> (a = 3 \<and> g = 4)"
    using g by (auto simp: a_def)
  have rem: "0 \<le> r3 - 365 * a" "r3 - 365 * a < 366"
    using a_cases gh q4r3 by (elim disjE conjE; linarith)+
  have rem_lt: "r3 - 365 * a < 365" if "a < 3"
    using that a_cases gh q4r3 by (elim disjE conjE; linarith)
  have lo: "DayFromYear (1601 + (400 * q + 100 * c + 4 * q4 + a)) =
      146097 * q + 36524 * c + 1461 * q4 + 365 * a - 134774"
    by (rule DayFromYear_cycles [OF c q4 a])
  have d: "d = 146097 * q + 36524 * c + 1461 * q4 + r3 - 134774"
    using n q4r3 by (simp add: n_def r2_def)
  have lower: "DayFromYear (YearFromDay d) \<le> d"
    unfolding Y using lo d rem by linarith
  have upper: "d < DayFromYear (YearFromDay d + 1)"
  proof (cases "a < 3")
    case True
    then have a1: "0 \<le> a + 1" "a + 1 \<le> 3" using a by linarith+
    have yeq: "YearFromDay d + 1 = 1601 + (400 * q + 100 * c + 4 * q4 + (a + 1))"
      by (simp add: Y)
    have "DayFromYear (YearFromDay d + 1) =
        146097 * q + 36524 * c + 1461 * q4 + 365 * (a + 1) - 134774"
      unfolding yeq by (rule DayFromYear_cycles [OF c q4 a1])
    then show ?thesis using d rem_lt [OF True] by simp
  next
    case False
    then have a3: "a = 3" using a by linarith
    show ?thesis
    proof (cases "q4 < 24")
      case True
      then have q41: "0 \<le> q4 + 1" "q4 + 1 \<le> 24" using q4 by linarith+
      have yeq: "YearFromDay d + 1 = 1601 + (400 * q + 100 * c + 4 * (q4 + 1) + 0)"
        by (simp add: Y a3)
      have "DayFromYear (YearFromDay d + 1) =
          146097 * q + 36524 * c + 1461 * (q4 + 1) + 365 * 0 - 134774"
        unfolding yeq by (rule DayFromYear_cycles [OF c q41]) simp_all
      then show ?thesis using d rem a3 by simp
    next
      case False
      then have q424: "q4 = 24" using q4 by linarith
      show ?thesis
      proof (cases "c < 3")
        case True
        then have c1: "0 \<le> c + 1" "c + 1 \<le> 3" using c by linarith+
        have yeq: "YearFromDay d + 1 = 1601 + (400 * q + 100 * (c + 1) + 4 * 0 + 0)"
          by (simp add: Y a3 q424)
        have "DayFromYear (YearFromDay d + 1) =
            146097 * q + 36524 * (c + 1) + 1461 * 0 + 365 * 0 - 134774"
          unfolding yeq by (rule DayFromYear_cycles [OF c1]) simp_all
        then show ?thesis using d r2_lt [OF True] q4r3 q424 by simp
      next
        case False
        then have c3: "c = 3" using c by linarith
        have yeq: "YearFromDay d + 1 = 1601 + (400 * (q + 1) + 100 * 0 + 4 * 0 + 0)"
          by (simp add: Y a3 q424 c3)
        have "DayFromYear (YearFromDay d + 1) =
            146097 * (q + 1) + 36524 * 0 + 1461 * 0 + 365 * 0 - 134774"
          unfolding yeq by (rule DayFromYear_cycles) simp_all
        then show ?thesis using d r2 q4r3 c3 q424 by simp
      qed
    qed
  qed
  from lower upper show ?thesis by simp
qed

lemma div_next:
  fixes x m :: int
  assumes "0 < m"
  shows "(x + 1) div m = x div m + (if (x + 1) mod m = 0 then 1 else 0)"
proof -
  define q where "q = x div m"
  define r where "r = x mod m"
  have x: "x = m * q + r" "0 \<le> r" "r < m"
    using assms by (simp_all add: q_def r_def)
  show ?thesis
  proof (cases "r + 1 < m")
    case True
    have e: "x + 1 = m * q + (r + 1)" using x by simp
    have "(x + 1) div m = q"
      by (rule int_div_pos_eq [OF e]) (use x True in auto)
    then have d: "(x + 1) div m = x div m" by (simp only: q_def)
    have "(x + 1) mod m = r + 1"
      by (rule int_mod_pos_eq [OF e]) (use x True in auto)
    with x(2) have "(x + 1) mod m \<noteq> 0" by linarith
    with d show ?thesis by simp
  next
    case False
    then have e: "x + 1 = m * (q + 1) + 0" using x by (simp add: algebra_simps)
    have "(x + 1) div m = q + 1"
      by (rule int_div_pos_eq [OF e]) (use assms in auto)
    then have d: "(x + 1) div m = x div m + 1" by (simp only: q_def)
    have "(x + 1) mod m = 0"
      by (rule int_mod_pos_eq [OF e]) (use assms in auto)
    with d show ?thesis by simp
  qed
qed

lemma DayFromYear_next: "DayFromYear (y + 1) = DayFromYear y + DaysInYear y"
proof -
  have s4: "(y - 1968) mod 4 = y mod 4"
    using mod_mult_self1 [of y "- 492" 4] by simp
  have s100: "(y - 1900) mod 100 = y mod 100"
    using mod_mult_self1 [of y "- 19" 100] by simp
  have s400: "(y - 1600) mod 400 = y mod 400"
    using mod_mult_self1 [of y "- 4" 400] by simp
  have f4: "(y - 1968) div 4 = (y - 1969) div 4 + (if y mod 4 = 0 then 1 else 0)"
    using div_next [of 4 "y - 1969"] by (simp add: s4)
  have f100: "(y - 1900) div 100 = (y - 1901) div 100 + (if y mod 100 = 0 then 1 else 0)"
    using div_next [of 100 "y - 1901"] by (simp add: s100)
  have f400: "(y - 1600) div 400 = (y - 1601) div 400 + (if y mod 400 = 0 then 1 else 0)"
    using div_next [of 400 "y - 1601"] by (simp add: s400)
  have m1: "y mod 4 = 0" if "y mod 100 = 0"
    using that dvd_trans [of 4 100 y] by (simp add: mod_eq_0_iff_dvd)
  have m2: "y mod 100 = 0" if "y mod 400 = 0"
    using that dvd_trans [of 100 400 y] by (simp add: mod_eq_0_iff_dvd)
  have "DayFromYear (y + 1) =
      365 * (y - 1969) + (y - 1968) div 4 - (y - 1900) div 100 + (y - 1600) div 400"
    by (simp add: DayFromYear_def)
  then show ?thesis
    using m1 m2 by (auto simp: f4 f100 f400 DayFromYear_def DaysInYear_def)
qed

lemma DaysInYear_cases: "DaysInYear y = 365 \<or> DaysInYear y = 366"
  by (simp add: DaysInYear_def)

lemma DayFromYear_less: "y < z \<Longrightarrow> DayFromYear y < DayFromYear z"
proof (induction z rule: int_gr_induct)
  case base
  show ?case using DayFromYear_next [of y] DaysInYear_cases [of y] by auto
next
  case (step i)
  then show ?case using DayFromYear_next [of i] DaysInYear_cases [of i] by auto
qed

lemma DayFromYear_le: "y \<le> z \<Longrightarrow> DayFromYear y \<le> DayFromYear z"
  using DayFromYear_less [of y z] by (cases "y = z") auto

text \<open>The year of a day is the only year whose days include it.\<close>

lemma YearFromDay_unique:
  assumes "DayFromYear y \<le> d" and "d < DayFromYear (y + 1)"
  shows "YearFromDay d = y"
proof -
  let ?Y = "YearFromDay d"
  have b: "DayFromYear ?Y \<le> d" "d < DayFromYear (?Y + 1)"
    using YearFromDay_bounds [of d] by simp_all
  have "\<not> ?Y < y"
  proof
    assume "?Y < y"
    then have "DayFromYear (?Y + 1) \<le> DayFromYear y" by (intro DayFromYear_le) simp
    with b assms show False by linarith
  qed
  moreover have "\<not> y < ?Y"
  proof
    assume "y < ?Y"
    then have "DayFromYear (y + 1) \<le> DayFromYear ?Y" by (intro DayFromYear_le) simp
    with b assms show False by linarith
  qed
  ultimately show ?thesis by linarith
qed

lemma DayWithinYear_bounds:
  "0 \<le> DayWithinYear t \<and> DayWithinYear t < DaysInYear (YearFromTime t)"
  using YearFromDay_bounds [of "Day t"] DayFromYear_next [of "YearFromDay (Day t)"]
  by (simp add: DayWithinYear_def YearFromTime_def)

lemma MonthFromTime_range: "0 \<le> MonthFromTime t \<and> MonthFromTime t \<le> 11"
  by (simp add: MonthFromTime_def Let_def)

lemma InLeapYear_cases: "InLeapYear t = 0 \<or> InLeapYear t = 1"
  by (simp add: InLeapYear_def)

lemma DaysInYear_leap: "DaysInYear (YearFromTime t) = 365 + InLeapYear t"
  using DaysInYear_cases [of "YearFromTime t"] by (auto simp: InLeapYear_def)

lemma DateFromTime_range: "1 \<le> DateFromTime t \<and> DateFromTime t \<le> 31"
proof -
  have b: "0 \<le> DayWithinYear t" "DayWithinYear t < 365 + InLeapYear t"
    using DayWithinYear_bounds [of t] by (simp_all add: DaysInYear_leap)
  from InLeapYear_cases [of t] show ?thesis
  proof
    assume l: "InLeapYear t = 0"
    show ?thesis using b
      unfolding DateFromTime_def MonthFromTime_def month_start_def Let_def l
      by (simp split: if_splits)
  next
    assume l: "InLeapYear t = 1"
    show ?thesis using b
      unfolding DateFromTime_def MonthFromTime_def month_start_def Let_def l
      by (simp split: if_splits)
  qed
qed

text \<open>From a time to its fields and back to its day.\<close>

lemma MakeDay_fields:
  "MakeDay (YearFromTime t) (MonthFromTime t) dt = Day t - DateFromTime t + dt"
proof -
  have m: "MonthFromTime t div 12 = 0" "MonthFromTime t mod 12 = MonthFromTime t"
    using MonthFromTime_range [of t] by simp_all
  show ?thesis
    by (simp add: MakeDay_def Let_def m DateFromTime_def DayWithinYear_def InLeapYear_def)
qed

section \<open>Deduplication\<close>

lemma generateEventKey_wf:
  "title e \<noteq> None \<Longrightarrow> start e \<noteq> None \<Longrightarrow>
   generateEventKey tz e = Inr (reconciliation_key tz e)"
  by (auto simp: generateEventKey_def reconciliation_key_def)

lemma firsts_index:
  "firsts key seen xs =
     map (\<lambda>i. xs ! i)
       (filter (\<lambda>i. key (xs ! i) \<notin> seen \<union> key ` set (take i xs)) [0..<length xs])"
proof (induction xs arbitrary: seen)
  case Nil
  show ?case by simp
next
  case (Cons x xs)
  have upt: "[0..<length (x # xs)] = 0 # map Suc [0..<length xs]"
    by (simp add: upt_conv_Cons map_Suc_upt del: upt_Suc)
  have tl: "map (\<lambda>i. (x # xs) ! i)
        (filter (\<lambda>i. key ((x # xs) ! i) \<notin> seen \<union> key ` set (take i (x # xs)))
           (map Suc [0..<length xs])) =
      map (\<lambda>i. xs ! i)
        (filter (\<lambda>i. key (xs ! i) \<notin> insert (key x) seen \<union> key ` set (take i xs))
           [0..<length xs])"
    by (simp add: filter_map o_def conj_ac)
  show ?case
  proof (cases "key x \<in> seen")
    case True
    then have "insert (key x) seen = seen" by blast
    with True tl show ?thesis
      by (simp only: upt firsts.simps Cons.IH [of seen] if_True list.map filter.simps
          nth_Cons_0 take_0 list.set image_empty Un_empty_right)  simp
  next
    case False
    with tl show ?thesis
      by (simp only: upt firsts.simps Cons.IH [of "insert (key x) seen"] if_False list.map
          filter.simps nth_Cons_0 take_0 list.set image_empty Un_empty_right) simp
  qed
qed

lemma firsts_empty_seen: "firsts key {} xs = first_occurrences key xs"
  by (simp add: firsts_index first_occurrences_def)

lemma firsts_subset: "set (firsts key seen xs) \<subseteq> set xs"
  by (induction xs arbitrary: seen) auto

lemma firsts_keys_fresh: "key ` set (firsts key seen xs) \<inter> seen = {}"
proof (induction xs arbitrary: seen)
  case Nil
  show ?case by simp
next
  case (Cons x xs)
  from Cons.IH [of seen] Cons.IH [of "insert (key x) seen"] show ?case by auto
qed

lemma firsts_distinct: "distinct (map key (firsts key seen xs))"
proof (induction xs arbitrary: seen)
  case Nil
  show ?case by simp
next
  case (Cons x xs)
  from Cons.IH firsts_keys_fresh [of key "insert (key x) seen" xs] show ?case by auto
qed

lemma firsts_fixed:
  "distinct (map key ys) \<Longrightarrow> key ` set ys \<inter> seen = {} \<Longrightarrow> firsts key seen ys = ys"
  by (induction ys arbitrary: seen) auto

lemma firsts_idem: "firsts key seen (firsts key seen xs) = firsts key seen xs"
  by (rule firsts_fixed [OF firsts_distinct firsts_keys_fresh])

lemma dedup_loop_firsts:
  assumes "\<forall>e \<in> set xs. title e \<noteq> None \<and> start e \<noteq> None"
  shows "dedup_loop tz xs seen uniq =
           Inr (uniq @ firsts (reconciliation_key tz) seen xs)"
  using assms
proof (induction xs arbitrary: seen uniq)
  case Nil
  show ?case by simp
next
  case (Cons x xs)
  then have k: "generateEventKey tz x = Inr (reconciliation_key tz x)"
    by (simp add: generateEventKey_wf)
  from Cons.prems have rest: "\<forall>e \<in> set xs. title e \<noteq> None \<and> start e \<noteq> None" by simp
  show ?case
    by (simp add: k Cons.IH [OF rest])
qed

text \<open>
  Claim C2. For every sequence of records with a title and a start,
  \<open>removeDuplicateEvents\<close> returns the first occurrences of each reconciliation key in
  their original order, and applied to its own result it returns that result again.
\<close>

theorem removeDuplicateEvents_first_occurrences:
  assumes "\<forall>e \<in> set X. title e \<noteq> None \<and> start e \<noteq> None"
  shows "removeDuplicateEvents tz X = Inr (first_occurrences (reconciliation_key tz) X) \<and>
         removeDuplicateEvents tz (first_occurrences (reconciliation_key tz) X) =
           Inr (first_occurrences (reconciliation_key tz) X)"
proof -
  let ?Y = "firsts (reconciliation_key tz) {} X"
  have 1: "removeDuplicateEvents tz X = Inr ?Y"
    using dedup_loop_firsts [OF assms, of tz "{}" "[]"] by (simp add: removeDuplicateEvents_def)
  have "\<forall>e \<in> set ?Y. title e \<noteq> None \<and> start e \<noteq> None"
    using assms firsts_subset [of "reconciliation_key tz" "{}" X] by blast
  then have "removeDuplicateEvents tz ?Y = Inr (firsts (reconciliation_key tz) {} ?Y)"
    using dedup_loop_firsts [of ?Y tz "{}" "[]"] by (simp add: removeDuplicateEvents_def)
  then have 2: "removeDuplicateEvents tz ?Y = Inr ?Y"
    by (simp only: firsts_idem)
  from 1 2 show ?thesis by (simp only: firsts_empty_seen)
qed

theorem removeDuplicateEvents_first_occurrences_witness:
  "removeDuplicateEvents (fixed_zone 0)
     [empty_event\<lparr>title := Some ''Standup'', start := Some (Date 1704445200000)\<rparr>,
      empty_event\<lparr>title := Some ''Review'', start := Some (Date 1704445200000)\<rparr>,
      empty_event\<lparr>title := Some '' STANDUP '', start := Some (Date 1704474000000)\<rparr>] =
   Inr [empty_event\<lparr>title := Some ''Standup'', start := Some (Date 1704445200000)\<rparr>,
        empty_event\<lparr>title := Some ''Review'', start := Some (Date 1704445200000)\<rparr>]"
proof -
  let ?X = "[empty_event\<lparr>title := Some ''Standup'', start := Some (Date 1704445200000)\<rparr>,
      empty_event\<lparr>title := Some ''Review'', start := Some (Date 1704445200000)\<rparr>,
      empty_event\<lparr>title := Some '' STANDUP '', start := Some (Date 1704474000000)\<rparr>]"
  have 1: "\<forall>e \<in> set ?X. title e \<noteq> None \<and> start e \<noteq> None" by simp
  have 2: "first_occurrences (reconciliation_key (fixed_zone 0)) ?X =
      [empty_event\<lparr>title := Some ''Standup'', start := Some (Date 1704445200000)\<rparr>,
       empty_event\<lparr>title := Some ''Review'', start := Some (Date 1704445200000)\<rparr>]"
    by code_simp
  from removeDuplicateEvents_first_occurrences [OF 1, of "fixed_zone 0"] show ?thesis
    by (simp only: 2)
qed

text \<open>
  The records that the parser returns have a title and a start, so that deduplication
  never throws on them.
\<close>

lemma removeDuplicateEvents_after_parse:
  assumes "parseIcsContent tz content = Inr evs"
  shows "removeDuplicateEvents tz evs = Inr (first_occurrences (reconciliation_key tz) evs)"
proof -
  have "\<forall>e \<in> set evs. truthy_string (title e) \<and> truthy_object (start e)"
    using parseIcsContent_complete [OF assms] .
  then have "\<forall>e \<in> set evs. title e \<noteq> None \<and> start e \<noteq> None"
    by (auto simp: truthy_string_def truthy_object_def split: option.splits)
  from dedup_loop_firsts [OF this, of tz "{}" "[]"] show ?thesis
    by (simp add: removeDuplicateEvents_def firsts_empty_seen)
qed

section \<open>The textual form of the key\<close>

lemma digits_one: "n < 10 \<Longrightarrow> digits n = [char_of (48 + n)]"
  by (subst digits.simps) simp

lemma digits_more: "10 \<le> n \<Longrightarrow> digits n = digits (n div 10) @ [char_of (48 + n mod 10)]"
  by (subst digits.simps) simp

lemma digits_two: "10 \<le> n \<Longrightarrow> n < 100 \<Longrightarrow> digits n = two_digits n"
  by (simp add: digits_more digits_one two_digits_def)

lemma digits_four:
  assumes "1000 \<le> n" and "n < 10000"
  shows "digits n = four_digits n"
proof -
  have d: "n div 10 div 10 = n div 100" "n div 100 div 10 = n div 1000"
    by (simp_all add: div_mult2_eq [symmetric])
  have r: "10 \<le> n div 10" "10 \<le> n div 100" "n div 100 < 100"
    using assms by simp_all
  have a: "digits n = digits (n div 10) @ [char_of (48 + n mod 10)]"
    using assms by (intro digits_more) simp
  have b: "digits (n div 10) = digits (n div 100) @ [char_of (48 + n div 10 mod 10)]"
    using digits_more [OF r(1)] by (simp only: d)
  have c: "digits (n div 100) = [char_of (48 + n div 1000), char_of (48 + n div 100 mod 10)]"
    using digits_two [OF r(2,3)] by (simp only: two_digits_def d)
  show ?thesis
    by (simp only: a b c four_digits_def append.simps)
qed

lemma char_of_48: "char_of (48::nat) = CHR ''0''"
  by code_simp

lemma padStart_two: "n < 100 \<Longrightarrow> padStart (digits n) 2 CHR ''0'' = two_digits n"
proof (cases "n < 10")
  case True
  then show ?thesis by (simp add: padStart_def digits_one two_digits_def char_of_48)
next
  case False
  assume "n < 100"
  with False show ?thesis by (simp add: padStart_def digits_two) (simp add: two_digits_def)
qed

lemma formatDateKey_form:
  assumes "1000 \<le> YearFromTime (LocalTime tz t)" and "YearFromTime (LocalTime tz t) \<le> 9999"
  shows "formatDateKey tz (Date t) =
           four_digits (nat (YearFromTime (LocalTime tz t))) @ ''-'' @
           two_digits (nat (MonthFromTime (LocalTime tz t) + 1)) @ ''-'' @
           two_digits (nat (DateFromTime (LocalTime tz t)))"
proof -
  let ?u = "LocalTime tz t"
  have y: "String_number (Some (YearFromTime ?u)) = four_digits (nat (YearFromTime ?u))"
    using assms by (simp add: String_number_def digits_four)
  have m: "padStart (String_number (Some (MonthFromTime ?u + 1))) 2 CHR ''0'' =
      two_digits (nat (MonthFromTime ?u + 1))"
  proof -
    have "nat (MonthFromTime ?u + 1) < 100" using MonthFromTime_range [of ?u] by linarith
    then show ?thesis
      using MonthFromTime_range [of ?u] by (simp add: String_number_def padStart_two)
  qed
  have d: "padStart (String_number (Some (DateFromTime ?u))) 2 CHR ''0'' =
      two_digits (nat (DateFromTime ?u))"
  proof -
    have "nat (DateFromTime ?u) < 100" using DateFromTime_range [of ?u] by linarith
    then show ?thesis
      using DateFromTime_range [of ?u] by (simp add: String_number_def padStart_two)
  qed
  show ?thesis
    by (simp add: formatDateKey_def Let_def getFullYear_def getMonth_def getDate_def
        num_add_def y m d)
qed

lemma formatDateKey_same_day:
  "Day (LocalTime tz t1) = Day (LocalTime tz t2) \<Longrightarrow>
   formatDateKey tz (Date t1) = formatDateKey tz (Date t2)"
  by (simp add: formatDateKey_def Let_def getFullYear_def getMonth_def getDate_def
      YearFromTime_def MonthFromTime_def DateFromTime_def DayWithinYear_def InLeapYear_def)

lemma filterEventsToCreate_filter:
  assumes "\<forall>e \<in> set X. title e \<noteq> None \<and> start e \<noteq> None"
  shows "filterEventsToCreate tz X K = Inr (filter (\<lambda>e. reconciliation_key tz e \<notin> K) X)"
  using assms
proof (induction X)
  case Nil
  show ?case by simp
next
  case (Cons x X)
  then have k: "generateEventKey tz x = Inr (reconciliation_key tz x)"
    by (simp add: generateEventKey_wf)
  from Cons have "filterEventsToCreate tz X K =
      Inr (filter (\<lambda>e. reconciliation_key tz e \<notin> K) X)"
    by simp
  with k show ?case by simp
qed

text \<open>
  For records with a title and a start, \<open>filterEventsToCreate\<close> returns, in the order
  of its input, exactly the records whose reconciliation key is not in the existing-key
  set. The key is the local calendar day of the start, a bar, and the title lowercased
  and trimmed; for a year of four digits the day reads \<open>YYYY-MM-DD\<close>. Two records with
  the same title whose starts fall on the same local calendar day have the same key,
  whatever their times of day, and are filtered alike.
\<close>

lemma filterEventsToCreate_by_key:
  "((\<forall>e \<in> set X. title e \<noteq> None \<and> start e \<noteq> None) \<longrightarrow>
      filterEventsToCreate tz X K = Inr (filter (\<lambda>e. reconciliation_key tz e \<notin> K) X)) \<and>
   (start e = Some (Date t) \<and> title e = Some ti \<and>
    1000 \<le> YearFromTime (LocalTime tz t) \<and> YearFromTime (LocalTime tz t) \<le> 9999 \<longrightarrow>
      generateEventKey tz e =
        Inr (four_digits (nat (YearFromTime (LocalTime tz t))) @ ''-'' @
             two_digits (nat (MonthFromTime (LocalTime tz t) + 1)) @ ''-'' @
             two_digits (nat (DateFromTime (LocalTime tz t))) @ ''|'' @
             trim (toLowerCase ti))) \<and>
   (title e1 = Some ti \<and> title e2 = Some ti \<and>
    start e1 = Some (Date t1) \<and> start e2 = Some (Date t2) \<and>
    Day (LocalTime tz t1) = Day (LocalTime tz t2) \<longrightarrow>
      generateEventKey tz e1 = generateEventKey tz e2 \<and>
      (filterEventsToCreate tz [e1] K = Inr [e1] \<longleftrightarrow>
       filterEventsToCreate tz [e2] K = Inr [e2]))"
proof (intro conjI impI)
  assume "\<forall>e \<in> set X. title e \<noteq> None \<and> start e \<noteq> None"
  then show "filterEventsToCreate tz X K = Inr (filter (\<lambda>e. reconciliation_key tz e \<notin> K) X)"
    by (rule filterEventsToCreate_filter)
next
  assume a: "start e = Some (Date t) \<and> title e = Some ti \<and>
    1000 \<le> YearFromTime (LocalTime tz t) \<and> YearFromTime (LocalTime tz t) \<le> 9999"
  then have "formatDateKey tz (Date t) =
           four_digits (nat (YearFromTime (LocalTime tz t))) @ ''-'' @
           two_digits (nat (MonthFromTime (LocalTime tz t) + 1)) @ ''-'' @
           two_digits (nat (DateFromTime (LocalTime tz t)))"
    by (intro formatDateKey_form) simp_all
  with a show "generateEventKey tz e =
        Inr (four_digits (nat (YearFromTime (LocalTime tz t))) @ ''-'' @
             two_digits (nat (MonthFromTime (LocalTime tz t) + 1)) @ ''-'' @
             two_digits (nat (DateFromTime (LocalTime tz t))) @ ''|'' @
             trim (toLowerCase ti))"
    by (simp add: generateEventKey_def)
next
  assume a: "title e1 = Some ti \<and> title e2 = Some ti \<and>
    start e1 = Some (Date t1) \<and> start e2 = Some (Date t2) \<and>
    Day (LocalTime tz t1) = Day (LocalTime tz t2)"
  then have "formatDateKey tz (Date t1) = formatDateKey tz (Date t2)"
    by (intro formatDateKey_same_day) simp
  with a show k: "generateEventKey tz e1 = generateEventKey tz e2"
    by (simp add: generateEventKey_def)
  show "filterEventsToCreate tz [e1] K = Inr [e1] \<longleftrightarrow>
       filterEventsToCreate tz [e2] K = Inr [e2]"
    using a k by (auto simp: generateEventKey_def split: if_splits)
qed

text \<open>
  Claim C3 holds for the filter and for the coarsening, and the code misses the form of
  the key for a year of fewer than four digits: \<open>formatDateKey\<close>, documented as
  formatting to \<open>YYYY-MM-DD\<close>, pads the month and the day and not the year. The record
  with the start that \<open>parseIcsDate\<close> decodes from \<open>09990105\<close> and the title
  \<open> Standup \<close> has the key \<open>999-01-05|standup\<close>, so that the existing key
  \<open>0999-01-05|standup\<close> does not filter it out.
\<close>

theorem key_of_year_999_is_not_padded:
  "parseIcsDate (fixed_zone 0) ''09990105'' = Date (- 30641414400000) \<and>
   generateEventKey (fixed_zone 0)
     (empty_event\<lparr>title := Some '' Standup '', start := Some (Date (- 30641414400000))\<rparr>) =
   Inr ''999-01-05|standup'' \<and>
   filterEventsToCreate (fixed_zone 0)
     [empty_event\<lparr>title := Some '' Standup '', start := Some (Date (- 30641414400000))\<rparr>]
     {''0999-01-05|standup''} =
   Inr [empty_event\<lparr>title := Some '' Standup '', start := Some (Date (- 30641414400000))\<rparr>]"
  by code_simp

section \<open>Retry merge\<close>

text \<open>
  Claim C5. When parsing, deduplication and filtering return, the list handed on for
  processing is the freshly eligible records followed by all the records rebuilt from
  the ledger: the ledger records are computed from the sheet alone and are appended
  whatever the existing-key set and the fresh batch contain. A ledger with the row
  \<open>("Sync", "2024-02-01T10:00:00", "", "FALSE", "", "", "API error")\<close> below its header
  gives exactly one record, with title \<open>Sync\<close>, \<open>isAllDay\<close> false and no end.
\<close>

theorem retry_merge_appends_ledger:
  "(parseIcsContent tz content = Inr evs \<and>
    removeDuplicateEvents tz evs = Inr uniqueEvents \<and>
    filterEventsToCreate tz uniqueEvents (snd (getExistingCalendarEvents tz cal uniqueEvents)) =
      Inr eventsToCreate \<longrightarrow>
      allEventsToProcess tz Date_parse content cal sheet =
        Inr (eventsToCreate @ getErrorEvents Date_parse sheet)) \<and>
   getErrorEvents Date_parse
     (Inr [header, [''Sync'', ''2024-02-01T10:00:00'', '''', ''FALSE'', '''', '''', ''API error'']]) =
     [\<lparr>title = Some ''Sync'', start = Some (Date_parse ''2024-02-01T10:00:00''), end' = None,
       isAllDay = Some False, description = Some '''', location = Some '''',
       rowIndex = Some 2\<rparr>]"
proof (intro conjI impI)
  assume "parseIcsContent tz content = Inr evs \<and>
    removeDuplicateEvents tz evs = Inr uniqueEvents \<and>
    filterEventsToCreate tz uniqueEvents (snd (getExistingCalendarEvents tz cal uniqueEvents)) =
      Inr eventsToCreate"
  then show "allEventsToProcess tz Date_parse content cal sheet =
        Inr (eventsToCreate @ getErrorEvents Date_parse sheet)"
    by (simp add: allEventsToProcess_def)
next
  show "getErrorEvents Date_parse
     (Inr [header, [''Sync'', ''2024-02-01T10:00:00'', '''', ''FALSE'', '''', '''', ''API error'']]) =
     [\<lparr>title = Some ''Sync'', start = Some (Date_parse ''2024-02-01T10:00:00''), end' = None,
       isAllDay = Some False, description = Some '''', location = Some '''',
       rowIndex = Some 2\<rparr>]"
    by (simp add: getErrorEvents_def row_event_def cell_def)
qed

theorem retry_merge_appends_ledger_witness:
  "allEventsToProcess (fixed_zone 0) (\<lambda>s. Date 1706781600000)
     (''BEGIN:VEVENT'' @ [LF] @ ''SUMMARY:Sync'' @ [LF] @ ''DTSTART:20240201T100000Z'' @ [LF] @
      ''END:VEVENT'')
     (\<lambda>s e. [])
     (Inr [[''Title''], [''Sync'', ''2024-02-01T10:00:00'', '''', ''FALSE'', '''', '''', ''API error'']]) =
   Inr [\<lparr>title = Some ''Sync'', start = Some (Date 1706781600000), end' = None,
         isAllDay = Some False, description = None, location = None, rowIndex = None\<rparr>,
        \<lparr>title = Some ''Sync'', start = Some (Date 1706781600000), end' = None,
         isAllDay = Some False, description = Some '''', location = Some '''',
         rowIndex = Some 2\<rparr>]"
proof -
  let ?c = "''BEGIN:VEVENT'' @ [LF] @ ''SUMMARY:Sync'' @ [LF] @ ''DTSTART:20240201T100000Z'' @ [LF] @
      ''END:VEVENT''"
  let ?e = "\<lparr>title = Some ''Sync'', start = Some (Date 1706781600000), end' = None,
         isAllDay = Some False, description = None, location = None, rowIndex = None\<rparr>"
  let ?cal = "\<lambda>(s::date) (e::date). [] :: calendar_event list"
  have 1: "parseIcsContent (fixed_zone 0) ?c = Inr [?e]" by code_simp
  have 2: "removeDuplicateEvents (fixed_zone 0) [?e] = Inr [?e]" by code_simp
  have 3: "filterEventsToCreate (fixed_zone 0) [?e] (snd (getExistingCalendarEvents (fixed_zone 0) ?cal [?e])) = Inr [?e]"
    by code_simp
  from retry_merge_appends_ledger
    [of "fixed_zone 0" ?c "[?e]" "[?e]" ?cal "[?e]" "\<lambda>s. Date 1706781600000"
        "Inr [[''Title''], [''Sync'', ''2024-02-01T10:00:00'', '''', ''FALSE'', '''', '''', ''API error'']]"
        "[''Title'']"]
    1 2 3
  show ?thesis by simp
qed

section \<open>Date-window inference\<close>

lemma range_loop_valid:
  assumes "\<forall>e \<in> set es. \<exists>t. start e = Some (Date t)"
  shows "range_loop es (Date lo, Date hi) =
           (Date (fold min (map start_time es) lo), Date (fold max (map start_time es) hi))"
  using assms
proof (induction es arbitrary: lo hi)
  case Nil
  show ?case by simp
next
  case (Cons e es)
  then obtain t where t: "start e = Some (Date t)" by auto
  have st: "start_time e = t" by (simp add: start_time_def t)
  have step: "range_loop (e # es) (Date lo, Date hi) =
      range_loop es (Date (min t lo), Date (max t hi))"
    by (simp add: t new_Date_def date_less_def min_def max_def Let_def)
  from Cons.prems have "\<forall>e \<in> set es. \<exists>t. start e = Some (Date t)" by simp
  from Cons.IH [OF this] step show ?case by (simp add: st)
qed

lemma day_split: "Day u * msPerDay + TimeWithinDay u = u"
  by (simp add: Day_def TimeWithinDay_def)

lemma setDate_shift:
  "setDate tz (Date t) (num_add (getDate tz (Date t)) k) =
     TimeClip (UTC tz (LocalTime tz t + k * msPerDay))"
proof -
  let ?u = "LocalTime tz t"
  have "MakeDate (MakeDay (YearFromTime ?u) (MonthFromTime ?u) (DateFromTime ?u + k))
      (TimeWithinDay ?u) = (Day ?u + k) * msPerDay + TimeWithinDay ?u"
    by (simp add: MakeDay_fields MakeDate_def)
  also have "\<dots> = ?u + k * msPerDay"
    using day_split [of ?u] by (simp add: algebra_simps)
  finally show ?thesis
    by (simp add: setDate_def getDate_def num_add_def Let_def)
qed

lemma Day_shift: "Day (u + k * msPerDay) = Day u + k"
  by (simp add: Day_def msPerDay_def)

lemma Day_lower: "Day u * msPerDay \<le> u"
  using day_split [of u] by (simp add: TimeWithinDay_def msPerDay_def)

lemma Day_upper: "u < Day u * msPerDay + msPerDay"
  using day_split [of u] by (simp add: TimeWithinDay_def msPerDay_def)

lemma TimeClip_in_range: "\<bar>t\<bar> \<le> 8640000000000000 \<Longrightarrow> TimeClip t = Date t"
  by (simp add: TimeClip_def)

text \<open>
  Moving by one day and setting the time of day, for offsets of at most a day and an
  instant six days or more inside the range of time values: no step leaves the range.
\<close>

lemma moved_in_range:
  fixes t a b c e d L D :: int
  assumes "\<bar>t\<bar> \<le> 8639999481600000" and "\<bar>k\<bar> \<le> 1"
      and "\<bar>a\<bar> \<le> 86400000" and "\<bar>b\<bar> \<le> 86400000"
      and "\<bar>c\<bar> \<le> 86400000" and "\<bar>e\<bar> \<le> 86400000"
      and "0 \<le> m" and "m < 86400000"
      and "L = t + a + k * 86400000 - b + c"
      and "D * 86400000 \<le> L" and "L < D * 86400000 + 86400000"
  shows "\<bar>t + a + k * 86400000 - b\<bar> \<le> 8640000000000000"
    and "\<bar>D * 86400000 + m - e\<bar> \<le> 8640000000000000"
  using assms by linarith+

lemma window_edge:
  assumes off: "\<forall>x b. \<bar>tz x b\<bar> \<le> msPerDay"
      and t: "\<bar>t\<bar> \<le> 8639999481600000"
      and k: "\<bar>k\<bar> \<le> 1"
      and m: "0 \<le> MakeTime h mi s ms" "MakeTime h mi s ms < msPerDay"
  shows "setHours tz (setDate tz (Date t) (num_add (getDate tz (Date t)) k)) h mi s ms =
           Date (UTC tz (MakeDate (moved_day tz t k) (MakeTime h mi s ms)))"
proof -
  define a where "a = tz t True"
  define x1 where "x1 = t + a + k * 86400000"
  define b where "b = tz x1 False"
  define u1 where "u1 = x1 - b"
  define c where "c = tz u1 True"
  define L where "L = u1 + c"
  define D where "D = Day L"
  define x2 where "x2 = D * 86400000 + MakeTime h mi s ms"
  define e where "e = tz x2 False"
  have ab: "\<bar>a\<bar> \<le> 86400000" "\<bar>b\<bar> \<le> 86400000" "\<bar>c\<bar> \<le> 86400000" "\<bar>e\<bar> \<le> 86400000"
    using off by (simp_all add: a_def b_def c_def e_def msPerDay_def)
  have Leq: "L = t + a + k * 86400000 - b + c"
    by (simp add: L_def u1_def x1_def)
  have DL: "D * 86400000 \<le> L" "L < D * 86400000 + 86400000"
    using Day_lower [of L] Day_upper [of L] by (simp_all add: D_def msPerDay_def)
  have m': "0 \<le> MakeTime h mi s ms" "MakeTime h mi s ms < 86400000"
    using m by (simp_all add: msPerDay_def)
  note r = moved_in_range [OF t k ab m' Leq DL]
  have loc: "LocalTime tz t + k * msPerDay = x1"
    by (simp add: LocalTime_def x1_def a_def msPerDay_def)
  have u: "UTC tz x1 = u1"
    by (simp add: UTC_def u1_def b_def)
  have "\<bar>u1\<bar> \<le> 8640000000000000"
    using r(1) by (simp add: u1_def x1_def)
  then have 1: "setDate tz (Date t) (num_add (getDate tz (Date t)) k) = Date u1"
    by (simp add: setDate_shift loc u TimeClip_in_range)
  have md: "moved_day tz t k = D"
    unfolding moved_day_def loc u by (simp add: D_def L_def LocalTime_def c_def)
  have x2: "MakeDate D (MakeTime h mi s ms) = x2"
    by (simp add: MakeDate_def x2_def msPerDay_def)
  have "\<bar>UTC tz x2\<bar> \<le> 8640000000000000"
    using r(2) by (simp add: UTC_def x2_def e_def)
  then have 2: "setHours tz (Date u1) h mi s ms = Date (UTC tz x2)"
    by (simp add: setHours_def Let_def LocalTime_def c_def [symmetric] L_def [symmetric]
        D_def [symmetric] x2 TimeClip_in_range)
  show ?thesis
    by (simp only: 1 2 md x2)
qed

lemma MakeTime_midnight: "MakeTime 0 0 0 0 = 0"
  by (simp add: MakeTime_def)

lemma MakeTime_last: "MakeTime 23 59 59 999 = msPerDay - 1"
  by (simp add: MakeTime_def msPerDay_def msPerHour_def msPerMinute_def msPerSecond_def)

lemma moved_day_fixed_zone:
  "moved_day (fixed_zone off) t k = Day (LocalTime (fixed_zone off) t) + k"
proof -
  have "LocalTime (fixed_zone off) (UTC (fixed_zone off) (LocalTime (fixed_zone off) t + k * msPerDay)) =
      LocalTime (fixed_zone off) t + k * msPerDay"
    by (simp add: LocalTime_def UTC_def fixed_zone_def)
  then show ?thesis by (simp only: moved_day_def Day_shift)
qed

lemma getEventDateRange_valid:
  assumes "evs \<noteq> []"
      and "\<forall>x b. \<bar>tz x b\<bar> \<le> msPerDay"
      and "\<forall>e \<in> set evs. \<exists>t. start e = Some (Date t) \<and> \<bar>t\<bar> \<le> 8639999481600000"
    shows "getEventDateRange tz evs =
             (Some (Date (UTC tz (MakeDate (moved_day tz (Min (start_time ` set evs)) (- 1)) 0))),
              Some (Date (UTC tz (MakeDate (moved_day tz (Max (start_time ` set evs)) 1)
                                     (msPerDay - 1)))))"
proof -
  from assms(1) obtain e0 rest where evs: "evs = e0 # rest" by (cases evs) auto
  from assms(3) evs obtain t0 where t0: "start e0 = Some (Date t0)" by auto
  have st0: "start_time e0 = t0" by (simp add: start_time_def t0)
  have valid: "\<forall>e \<in> set evs. \<exists>t. start e = Some (Date t)" using assms(3) by blast
  let ?lo = "Min (start_time ` set evs)" and ?hi = "Max (start_time ` set evs)"
  have lo: "fold min (map start_time evs) t0 = ?lo"
    using Min.set_eq_fold [of t0 "map start_time rest"] by (simp add: evs st0)
  have hi: "fold max (map start_time evs) t0 = ?hi"
    using Max.set_eq_fold [of t0 "map start_time rest"] by (simp add: evs st0)
  have loop: "range_loop evs (new_Date (start e0), new_Date (start e0)) = (Date ?lo, Date ?hi)"
    using range_loop_valid [OF valid, of t0 t0] by (simp add: new_Date_def t0 lo hi)
  have bound: "\<bar>start_time e\<bar> \<le> 8639999481600000" if "e \<in> set evs" for e
    using assms(3) that by (auto simp: start_time_def)
  have "?lo \<in> start_time ` set evs" using assms(1) by (intro Min_in) auto
  then have blo: "\<bar>?lo\<bar> \<le> 8639999481600000" using bound by auto
  have "?hi \<in> start_time ` set evs" using assms(1) by (intro Max_in) auto
  then have bhi: "\<bar>?hi\<bar> \<le> 8639999481600000" using bound by auto
  have g: "getEventDateRange tz evs =
      (case range_loop evs (new_Date (start e0), new_Date (start e0)) of
         (minDate, maxDate) \<Rightarrow>
           (Some (setHours tz (setDate tz minDate (num_add (getDate tz minDate) (- 1))) 0 0 0 0),
            Some (setHours tz (setDate tz maxDate (num_add (getDate tz maxDate) 1))
                    23 59 59 999)))"
    unfolding evs by (simp add: getEventDateRange_def Let_def del: range_loop.simps)
  have s: "setHours tz (setDate tz (Date ?lo) (num_add (getDate tz (Date ?lo)) (- 1))) 0 0 0 0 =
      Date (UTC tz (MakeDate (moved_day tz ?lo (- 1)) 0))"
    using window_edge [OF assms(2) blo, of "- 1" 0 0 0 0] by (simp add: MakeTime_midnight msPerDay_def)
  have e: "setHours tz (setDate tz (Date ?hi) (num_add (getDate tz (Date ?hi)) 1)) 23 59 59 999 =
      Date (UTC tz (MakeDate (moved_day tz ?hi 1) (msPerDay - 1)))"
    using window_edge [OF assms(2) bhi, of 1 23 59 59 999] by (simp add: MakeTime_last msPerDay_def)
  show ?thesis
    by (simp only: g loop prod.case s e)
qed




text \<open>
  In a zone with a fixed offset the moves always reach the adjacent local days. In a
  zone that skips a local day they need not: in Pacific/Apia a start at noon of
  31 December 2011, moved back by one calendar day, is read on 31 December again, and
  the window begins with the day of the start itself.
\<close>

lemma window_in_fixed_zone:
  assumes "evs \<noteq> []" and "\<bar>off\<bar> \<le> msPerDay"
      and "\<forall>e \<in> set evs. \<exists>t. start e = Some (Date t) \<and> \<bar>t\<bar> \<le> 8639999481600000"
    shows "getEventDateRange (fixed_zone off) evs =
             (Some (Date (UTC (fixed_zone off)
                (MakeDate (Day (LocalTime (fixed_zone off) (Min (start_time ` set evs))) - 1) 0))),
              Some (Date (UTC (fixed_zone off)
                (MakeDate (Day (LocalTime (fixed_zone off) (Max (start_time ` set evs))) + 1)
                   (msPerDay - 1)))))"
proof -
  have "\<forall>x b. \<bar>fixed_zone off x b\<bar> \<le> msPerDay"
    using assms(2) by (simp add: fixed_zone_def)
  from getEventDateRange_valid [OF assms(1) this assms(3)] show ?thesis
    by (simp add: moved_day_fixed_zone)
qed

lemma window_in_zone_that_skips_a_day:
  "moved_day apia_2011 1325282400000 (- 1) = Day (LocalTime apia_2011 1325282400000) \<and>
   getEventDateRange apia_2011
     [empty_event\<lparr>title := Some ''A'', start := Some (Date 1325282400000)\<rparr>] =
   (Some (Date 1325239200000), Some (Date 1325411999999))"
  by code_simp

section \<open>The date-time decoder on UTC tokens\<close>

text \<open>Decimal digit characters.\<close>

lemma digit_char_code: "(k::nat) < 10 \<Longrightarrow> char_code (char_of (48 + k)) = 48 + k"
  by (simp add: char_code_def)

lemma digit_char_value: "(k::nat) < 10 \<Longrightarrow> digit_value (char_of (48 + k)) = Some k"
  by (simp add: digit_value_def digit_char_code Let_def)

lemma digit_char_is_digit: "(k::nat) < 10 \<Longrightarrow> is_digit 10 (char_of (48 + k))"
  by (simp add: is_digit_def digit_char_value)

lemma digit_char_not_space: "(k::nat) < 10 \<Longrightarrow> \<not> isWhiteSpace (char_of (48 + k))"
  by (simp add: isWhiteSpace_def digit_char_code)

lemma digit_char_neq:
  assumes "(k::nat) < 10" and "char_code c < 48 \<or> 57 < char_code c"
  shows "char_of (48 + k) \<noteq> c"
proof
  assume "char_of (48 + k) = c"
  then have "char_code c = 48 + k" using digit_char_code [OF assms(1)] by simp
  with assms show False by auto
qed

lemma codes: "char_code CHR ''-'' = 45" "char_code CHR ''+'' = 43" "char_code CHR ''x'' = 120"
  "char_code CHR ''X'' = 88" "char_code CHR ''T'' = 84" "char_code CHR ''Z'' = 90"
  by (simp_all add: char_code_def)

lemma parseInt_two_digits:
  assumes "n < 100"
  shows "parseInt (two_digits n) = Some (int n)"
proof -
  let ?a = "char_of (48 + n div 10) :: char" and ?b = "char_of (48 + n mod 10) :: char"
  have a: "n div 10 < 10" and b: "n mod 10 < 10" using assms by simp_all
  have t: "trimStart [?a, ?b] = [?a, ?b]"
    by (simp add: trimStart_def digit_char_not_space [OF a])
  have n1: "?a \<noteq> CHR ''-''" "?a \<noteq> CHR ''+''" "?b \<noteq> CHR ''x''" "?b \<noteq> CHR ''X''"
    by (rule digit_char_neq [OF a] digit_char_neq [OF b], simp add: codes)+
  have tw: "takeWhile (is_digit 10) [?a, ?b] = [?a, ?b]"
    by (simp add: digit_char_is_digit [OF a] digit_char_is_digit [OF b])
  have v: "digits_value 10 [?a, ?b] = n"
    by (simp add: digits_value_def digit_char_value [OF a] digit_char_value [OF b])
  show ?thesis
    unfolding two_digits_def parseInt_def Let_def t
    using n1 by (simp add: startsWith_def digit_char_is_digit [OF a] digit_char_is_digit [OF b] v)
qed

lemma decimal_expansion:
  fixes n :: nat
  assumes "n = 10 * q1 + d" and "q1 = 10 * q2 + c" and "q2 = 10 * a + b"
  shows "((a * 10 + b) * 10 + c) * 10 + d = n"
  using assms by simp

lemma four_digits_value:
  fixes n :: nat
  shows "((n div 1000 * 10 + n div 100 mod 10) * 10 + n div 10 mod 10) * 10 + n mod 10 = n"
proof (rule decimal_expansion)
  show "n = 10 * (n div 10) + n mod 10" by simp
  show "n div 10 = 10 * (n div 100) + n div 10 mod 10"
    using div_mult_mod_eq [of "n div 10" 10] by (simp add: div_mult2_eq [symmetric])
  show "n div 100 = 10 * (n div 1000) + n div 100 mod 10"
    using div_mult_mod_eq [of "n div 100" 10] by (simp add: div_mult2_eq [symmetric])
qed

lemma parseInt_four_digits:
  assumes "n < 10000"
  shows "parseInt (four_digits n) = Some (int n)"
proof -
  let ?a = "char_of (48 + n div 1000) :: char" and ?b = "char_of (48 + n div 100 mod 10) :: char"
  let ?c = "char_of (48 + n div 10 mod 10) :: char" and ?d = "char_of (48 + n mod 10) :: char"
  have a: "n div 1000 < 10" and b: "n div 100 mod 10 < 10"
    and c: "n div 10 mod 10 < 10" and d: "n mod 10 < 10"
    using assms by simp_all
  have t: "trimStart [?a, ?b, ?c, ?d] = [?a, ?b, ?c, ?d]"
    by (simp add: trimStart_def digit_char_not_space [OF a])
  have n1: "?a \<noteq> CHR ''-''" "?a \<noteq> CHR ''+''" "?b \<noteq> CHR ''x''" "?b \<noteq> CHR ''X''"
    by (rule digit_char_neq [OF a] digit_char_neq [OF b], simp add: codes)+
  have "digits_value 10 [?a, ?b, ?c, ?d] =
      ((n div 1000 * 10 + n div 100 mod 10) * 10 + n div 10 mod 10) * 10 + n mod 10"
    by (simp add: digits_value_def digit_char_value [OF a] digit_char_value [OF b]
        digit_char_value [OF c] digit_char_value [OF d])
  then have v: "digits_value 10 [?a, ?b, ?c, ?d] = n"
    by (simp only: four_digits_value)
  show ?thesis
    unfolding four_digits_def parseInt_def Let_def t
    using n1
    by (simp add: startsWith_def digit_char_is_digit [OF a] digit_char_is_digit [OF b]
        digit_char_is_digit [OF c] digit_char_is_digit [OF d] v)
qed

lemma two_digits_no_T: "n < 100 \<Longrightarrow> CHR ''T'' \<notin> set (two_digits n)"
proof -
  assume "n < 100"
  then have a: "n div 10 < 10" and b: "n mod 10 < 10" by simp_all
  have "char_of (48 + n div 10) \<noteq> CHR ''T''" "char_of (48 + n mod 10) \<noteq> CHR ''T''"
    by (rule digit_char_neq [OF a] digit_char_neq [OF b], simp add: codes)+
  then show ?thesis by (auto simp: two_digits_def)
qed

lemma four_digits_no_T: "n < 10000 \<Longrightarrow> CHR ''T'' \<notin> set (four_digits n)"
proof -
  assume "n < 10000"
  then have a: "n div 1000 < 10" and b: "n div 100 mod 10 < 10"
    and c: "n div 10 mod 10 < 10" and d: "n mod 10 < 10"
    by simp_all
  have "char_of (48 + n div 1000) \<noteq> CHR ''T''" "char_of (48 + n div 100 mod 10) \<noteq> CHR ''T''"
    "char_of (48 + n div 10 mod 10) \<noteq> CHR ''T''" "char_of (48 + n mod 10) \<noteq> CHR ''T''"
    by (rule digit_char_neq [OF a] digit_char_neq [OF b] digit_char_neq [OF c]
        digit_char_neq [OF d], simp add: codes)+
  then show ?thesis by (auto simp: four_digits_def)
qed

lemma split_char_absent: "c \<notin> set b \<Longrightarrow> split_char c b = [b]"
  by (induction b) auto

lemma split_char_once:
  "c \<notin> set a \<Longrightarrow> c \<notin> set b \<Longrightarrow> split_char c (a @ c # b) = [a, b]"
  by (induction a) (auto simp: split_char_absent)

lemma parseIcsDateTime_utc_parts:
  assumes "CHR ''T'' \<notin> set (y4 @ m2 @ d2)" and "CHR ''T'' \<notin> set (h2 @ mi2 @ s2)"
      and "length y4 = 4" "length m2 = 2" "length d2 = 2"
      and "length h2 = 2" "length mi2 = 2" "length s2 = 2"
    shows "parseIcsDateTime tz (y4 @ m2 @ d2 @ ''T'' @ h2 @ mi2 @ s2 @ ''Z'') =
             Inr (Date_UTC (parseInt y4) (num_add (parseInt m2) (- 1)) (parseInt d2)
                    (parseInt h2) (parseInt mi2) (parseInt s2))"
proof -
  let ?a = "y4 @ m2 @ d2" and ?b = "h2 @ mi2 @ s2 @ ''Z''"
  have nb: "CHR ''T'' \<notin> set ?b" using assms(2) by simp
  have tok: "y4 @ m2 @ d2 @ ''T'' @ h2 @ mi2 @ s2 @ ''Z'' = ?a @ CHR ''T'' # ?b" by simp
  have sp: "split_char CHR ''T'' (?a @ CHR ''T'' # ?b) = [?a, ?b]"
    by (rule split_char_once [OF assms(1) nb])
  have sa: "substring ?a 0 4 = y4" "substring ?a 4 6 = m2" "substring ?a 6 8 = d2"
    using assms(3-5) by (simp_all add: substring_def)
  have sb: "substring ?b 0 2 = h2" "substring ?b 2 4 = mi2" "substring ?b 4 6 = s2"
    using assms(6-8) by (simp_all add: substring_def)
  have z: "endsWith (?a @ CHR ''T'' # ?b) ''Z''"
    using assms(3-8) by (simp add: endsWith_def)
  show ?thesis
    unfolding tok parseIcsDateTime_def sp
    by (simp only: list.case sa sb z Let_def if_True)
qed

lemma month_values:
  fixes m :: int
  assumes "0 \<le> m" and "m \<le> 11"
  shows "m = 0 \<or> m = 1 \<or> m = 2 \<or> m = 3 \<or> m = 4 \<or> m = 5 \<or> m = 6 \<or> m = 7 \<or> m = 8 \<or>
         m = 9 \<or> m = 10 \<or> m = 11"
  using assms by arith

lemma month_day_within:
  fixes l m d :: int
  assumes "l = 0 \<or> l = 1" and "0 \<le> m" and "m \<le> 11" and "1 \<le> d"
      and "d \<le> (if m = 1 then 28 + l else if m = 3 \<or> m = 5 \<or> m = 8 \<or> m = 10 then 30 else 31)"
      and "w = month_start l m + d - 1"
  shows "0 \<le> w \<and> w < 365 + l \<and>
         (if w < 31 then 0
          else if w < 59 + l then 1
          else if w < 90 + l then 2
          else if w < 120 + l then 3
          else if w < 151 + l then 4
          else if w < 181 + l then 5
          else if w < 212 + l then 6
          else if w < 243 + l then 7
          else if w < 273 + l then 8
          else if w < 304 + l then 9
          else if w < 334 + l then 10
          else 11) = m"
  using month_values [OF assms(2,3)] assms(1,4,5,6)
  by (elim disjE; simp add: month_start_def)

lemma Day_MakeDate: "0 \<le> tm \<Longrightarrow> tm < msPerDay \<Longrightarrow> Day (MakeDate day tm) = day"
  unfolding Day_def MakeDate_def
  by (rule int_div_pos_eq [where r = tm]) (simp_all add: msPerDay_def)

text \<open>From the fields of a calendar date to its day and back to the fields.\<close>

lemma MakeDay_roundtrip:
  assumes "0 \<le> m" and "m \<le> 11" and "1 \<le> d" and "d \<le> days_in_month y m"
      and "0 \<le> tm" and "tm < msPerDay"
  shows "YearFromTime (MakeDate (MakeDay y m d) tm) = y \<and>
         MonthFromTime (MakeDate (MakeDay y m d) tm) = m \<and>
         DateFromTime (MakeDate (MakeDay y m d) tm) = d"
proof -
  define l :: int where "l = (if DaysInYear y = 366 then 1 else 0)"
  let ?t = "MakeDate (MakeDay y m d) tm"
  have mm: "m div 12 = 0" "m mod 12 = m" using assms(1,2) by simp_all
  have day: "Day ?t = DayFromYear y + month_start l m + d - 1"
    by (simp add: Day_MakeDate [OF assms(5,6)] MakeDay_def Let_def mm l_def)
  have len: "DaysInYear y = 365 + l"
    using DaysInYear_cases [of y] by (auto simp: l_def)
  have l01: "l = 0 \<or> l = 1" by (simp add: l_def)
  have dl: "d \<le> (if m = 1 then 28 + l
                    else if m = 3 \<or> m = 5 \<or> m = 8 \<or> m = 10 then 30 else 31)"
    using assms(4) by (auto simp: days_in_month_def l_def split: if_splits)
  note tab = month_day_within [OF l01 assms(1,2,3) dl refl]
  have Y: "YearFromTime ?t = y"
    unfolding YearFromTime_def day
    by (rule YearFromDay_unique) (use tab in \<open>simp_all add: DayFromYear_next len\<close>)
  have L: "InLeapYear ?t = l" by (simp add: InLeapYear_def Y l_def)
  have W: "DayWithinYear ?t = month_start l m + d - 1"
    by (simp add: DayWithinYear_def Y day)
  have M: "MonthFromTime ?t = m"
    unfolding MonthFromTime_def L W Let_def using tab by blast
  have D: "DateFromTime ?t = d"
    by (simp add: DateFromTime_def L W M)
  from Y M D show ?thesis by simp
qed

lemma time_fields:
  assumes "0 \<le> h" "h < 24" "0 \<le> mi" "mi < 60" "0 \<le> s" "s < 60"
  shows "HourFromTime (MakeDate day (MakeTime h mi s 0)) = h \<and>
         MinFromTime (MakeDate day (MakeTime h mi s 0)) = mi \<and>
         SecFromTime (MakeDate day (MakeTime h mi s 0)) = s \<and>
         0 \<le> MakeTime h mi s 0 \<and> MakeTime h mi s 0 < msPerDay"
proof -
  let ?t = "MakeDate day (MakeTime h mi s 0)"
  have t: "?t = day * 86400000 + h * 3600000 + mi * 60000 + s * 1000"
    by (simp add: MakeDate_def MakeTime_def msPerDay_def msPerHour_def msPerMinute_def
        msPerSecond_def)
  have "?t div 3600000 = day * 24 + h"
    by (rule int_div_pos_eq [where r = "mi * 60000 + s * 1000"]) (use assms t in auto)
  moreover have "(day * 24 + h) mod 24 = h"
    by (rule int_mod_pos_eq [where q = day]) (use assms in auto)
  ultimately have H: "HourFromTime ?t = h"
    by (simp only: HourFromTime_def msPerHour_def)
  have "?t div 60000 = (day * 24 + h) * 60 + mi"
    by (rule int_div_pos_eq [where r = "s * 1000"]) (use assms t in auto)
  moreover have "((day * 24 + h) * 60 + mi) mod 60 = mi"
    by (rule int_mod_pos_eq [where q = "day * 24 + h"]) (use assms in auto)
  ultimately have M: "MinFromTime ?t = mi"
    by (simp only: MinFromTime_def msPerMinute_def)
  have "?t div 1000 = ((day * 24 + h) * 60 + mi) * 60 + s"
    by (rule int_div_pos_eq [where r = 0]) (use assms t in auto)
  moreover have "(((day * 24 + h) * 60 + mi) * 60 + s) mod 60 = s"
    by (rule int_mod_pos_eq [where q = "(day * 24 + h) * 60 + mi"]) (use assms in auto)
  ultimately have S: "SecFromTime ?t = s"
    by (simp only: SecFromTime_def msPerSecond_def)
  have R: "0 \<le> MakeTime h mi s 0" "MakeTime h mi s 0 < msPerDay"
    using assms by (simp_all add: MakeTime_def msPerDay_def msPerHour_def msPerMinute_def
        msPerSecond_def)
  from H M S R show ?thesis by simp
qed

lemma time_value_in_range:
  fixes t D tm :: int
  assumes "t = D * 86400000 + tm" and "- 683003 \<le> D" and "D < 2932897"
      and "0 \<le> tm" and "tm < 86400000"
  shows "\<bar>t\<bar> \<le> 8640000000000000"
  using assms by linarith

lemma days_in_month_le_31: "days_in_month y m \<le> 31"
  by (simp add: days_in_month_def)

text \<open>
  For the years 100 to 9999 the decoder is right on every UTC token whose fields are a
  calendar date and a time of day: the UTC fields of the instant are the literal
  fields (the month counted from 0, as \<open>getUTCMonth\<close> does).
\<close>

lemma parseIcsDateTime_utc_roundtrip:
  assumes "100 \<le> y" and "y \<le> 9999" and "1 \<le> mo" and "mo \<le> 12"
      and "1 \<le> d" and "int d \<le> days_in_month (int y) (int mo - 1)"
      and "h < 24" and "mi < 60" and "s < 60"
  shows "\<exists>t. parseIcsDateTime tz (utc_token y mo d h mi s) = Inr (Date t) \<and>
             getUTCFullYear (Date t) = Some (int y) \<and>
             getUTCMonth (Date t) = Some (int mo - 1) \<and>
             getUTCDate (Date t) = Some (int d) \<and>
             getUTCHours (Date t) = Some (int h) \<and>
             getUTCMinutes (Date t) = Some (int mi) \<and>
             getUTCSeconds (Date t) = Some (int s)"
proof -
  let ?t = "MakeDate (MakeDay (int y) (int mo - 1) (int d)) (MakeTime (int h) (int mi) (int s) 0)"
  have d31: "d < 100" using assms(6) days_in_month_le_31 [of "int y" "int mo - 1"] by linarith
  have small: "y < 10000" "mo < 100" "h < 100" "mi < 100" "s < 100"
    using assms by simp_all
  have noT: "CHR ''T'' \<notin> set (four_digits y @ two_digits mo @ two_digits d)"
    "CHR ''T'' \<notin> set (two_digits h @ two_digits mi @ two_digits s)"
    using small d31 by (simp_all add: four_digits_no_T two_digits_no_T)
  have len: "length (four_digits y) = 4" "length (two_digits mo) = 2" "length (two_digits d) = 2"
    "length (two_digits h) = 2" "length (two_digits mi) = 2" "length (two_digits s) = 2"
    by (simp_all add: four_digits_def two_digits_def)
  have parse: "parseIcsDateTime tz (utc_token y mo d h mi s) =
      Inr (Date_UTC (Some (int y)) (Some (int mo - 1)) (Some (int d))
             (Some (int h)) (Some (int mi)) (Some (int s)))"
    unfolding utc_token_def
    by (simp only: parseIcsDateTime_utc_parts [OF noT len] parseInt_four_digits [OF small(1)]
        parseInt_two_digits [OF small(2)] parseInt_two_digits [OF d31]
        parseInt_two_digits [OF small(3)] parseInt_two_digits [OF small(4)]
        parseInt_two_digits [OF small(5)] num_add_def option.map) simp
  have tf: "HourFromTime ?t = int h \<and> MinFromTime ?t = int mi \<and> SecFromTime ?t = int s \<and>
      0 \<le> MakeTime (int h) (int mi) (int s) 0 \<and> MakeTime (int h) (int mi) (int s) 0 < msPerDay"
    by (rule time_fields) (use assms in simp_all)
  have df: "YearFromTime ?t = int y \<and> MonthFromTime ?t = int mo - 1 \<and> DateFromTime ?t = int d"
    by (rule MakeDay_roundtrip) (use assms tf in simp_all)
  have day: "Day ?t = MakeDay (int y) (int mo - 1) (int d)"
    using tf by (intro Day_MakeDate) simp_all
  have "DayFromYear (YearFromDay (Day ?t)) \<le> Day ?t \<and> Day ?t < DayFromYear (YearFromDay (Day ?t) + 1)"
    by (rule YearFromDay_bounds)
  then have b: "DayFromYear (int y) \<le> Day ?t" "Day ?t < DayFromYear (int y + 1)"
    using df by (simp_all add: YearFromTime_def)
  have "DayFromYear 100 \<le> DayFromYear (int y)" "DayFromYear (int y + 1) \<le> DayFromYear 10000"
    using assms(1,2) by (intro DayFromYear_le; simp)+
  then have r: "- 683003 \<le> Day ?t" "Day ?t < 2932897"
    using b by (simp_all add: DayFromYear_def)
  have "?t = Day ?t * msPerDay + MakeTime (int h) (int mi) (int s) 0"
    unfolding day by (simp only: MakeDate_def)
  then have "\<bar>?t\<bar> \<le> 8640000000000000"
    unfolding msPerDay_def
    by (rule time_value_in_range) (use r tf in \<open>simp_all add: msPerDay_def\<close>)
  then have clip: "Date_UTC (Some (int y)) (Some (int mo - 1)) (Some (int d))
             (Some (int h)) (Some (int mi)) (Some (int s)) = Date ?t"
    using assms(1) by (simp add: Date_UTC_def MakeFullYear_def TimeClip_def)
  show ?thesis
    using parse clip tf df
    by (intro exI [of _ ?t])
       (simp add: getUTCFullYear_def getUTCMonth_def getUTCDate_def getUTCHours_def
          getUTCMinutes_def getUTCSeconds_def)
qed

text \<open>
  Claim C6 holds for the years 100 to 9999, as \<open>parseIcsDateTime_utc_roundtrip\<close>
  shows, and fails on the code for the years 0 to 99:
  \<open>Date.UTC\<close> reads a year between 0 and 99 as 1900 plus that year, and
  \<open>parseIcsDateTime\<close> passes the parsed year to it as it is. The token
  \<open>00500101T000000Z\<close>, with the literal year 50, decodes to an instant in the UTC
  year 1950.
\<close>

theorem utc_token_year_50_decodes_to_1950:
  "parseIcsDateTime (fixed_zone 0) ''00500101T000000Z'' = Inr (Date (- 631152000000)) \<and>
   getUTCFullYear (Date (- 631152000000)) = Some 1950 \<and>
   getUTCMonth (Date (- 631152000000)) = Some 0 \<and>
   getUTCDate (Date (- 631152000000)) = Some 1 \<and>
   getUTCHours (Date (- 631152000000)) = Some 0 \<and>
   getUTCMinutes (Date (- 631152000000)) = Some 0 \<and>
   getUTCSeconds (Date (- 631152000000)) = Some 0"
  by code_simp

end
